theory Spec2Isabelle
  imports Complex_Main "HOL-Library.Word" "HOL-Library.Monad_Syntax"
begin

unbundle bit_operations_syntax

section \<open>Host-language values\<close>

text \<open>
  The program is TypeScript running in a browser.  Its numbers are IEEE doubles; the
  finite ones are embedded in \<^typ>\<open>real\<close>.  Every product the encoder forms (a 24-bit
  sample mantissa times a 15-bit constant, a sample rate times a channel count) is exact
  in double precision, so in the encoder real arithmetic computes what the program
  computes on finite inputs.  The arithmetic of the export manager is not exact; there
  every operation is followed by the rounding \<open>fl\<close> defined below.  Strings are sequences
  of UTF-16 code units, bytes are 8-bit words.
\<close>

type_synonym byte = "8 word"

type_synonym js_string = "16 word list"

text \<open>A string literal of the source (all of them are ASCII).\<close>

definition lit :: "string \<Rightarrow> js_string" where
  "lit s = map of_char s"

text \<open>\<^verbatim>\<open>str.charCodeAt(i)\<close> for an index inside the string.\<close>

definition charCodeAt :: "js_string \<Rightarrow> nat \<Rightarrow> real" where
  "charCodeAt str i = real (unat (str ! i))"

text \<open>
  The integer conversion that precedes every typed store (ECMAScript \<^verbatim>\<open>ToUint8\<close>,
  \<^verbatim>\<open>ToUint16\<close>, \<^verbatim>\<open>ToInt16\<close>, \<^verbatim>\<open>ToUint32\<close>): the fraction is dropped, rounding towards
  zero; the reduction modulo the field width happens when the bytes are taken.
\<close>

definition js_truncate :: "real \<Rightarrow> int" where
  "js_truncate x = (if x < 0 then - \<lfloor>- x\<rfloor> else \<lfloor>x\<rfloor>)"

subsection \<open>Double-precision arithmetic\<close>

text \<open>
  An arithmetic operation on doubles returns the exact result rounded to the nearest
  double, a tie going to the double with an even significand.  \<open>rne\<close> rounds a real to
  the nearest integer in this way; \<open>binade x\<close> is the exponent \<open>k\<close> with
  \<open>2\<^sup>k \<le> \<bar>x\<bar> < 2\<^sup>k\<^sup>+\<^sup>1\<close>; \<open>fl\<close> rounds to a significand of 53 bits, that is to a multiple
  of \<open>2\<^sup>k\<^sup>-\<^sup>5\<^sup>2\<close>.  Overflow beyond \<open>2\<^sup>1\<^sup>0\<^sup>2\<^sup>4\<close> and gradual underflow below
  \<open>2\<^sup>-\<^sup>1\<^sup>0\<^sup>2\<^sup>2\<close> are not represented.
\<close>

definition rne :: "real \<Rightarrow> int" where
  "rne y =
     (let n = \<lfloor>y\<rfloor>; r = y - real_of_int n
      in if r < 1 / 2 then n else if 1 / 2 < r then n + 1 else if even n then n else n + 1)"

definition binade :: "real \<Rightarrow> int" where
  "binade x = \<lfloor>log 2 \<bar>x\<bar>\<rfloor>"

definition fl :: "real \<Rightarrow> real" where
  "fl x =
     (if x = 0 then 0
      else (let ulp = 2 powi (binade x - 52)
            in real_of_int (rne (x / ulp)) * ulp))"

subsection \<open>Bytes\<close>

text \<open>
  The \<open>n\<close> low-order bytes of an integer, least significant first.  Division on
  \<^typ>\<open>int\<close> rounds down and \<^const>\<open>word_of_int\<close> reduces modulo 256, so a negative
  integer yields its two's complement.
\<close>

fun raw_bytes :: "nat \<Rightarrow> int \<Rightarrow> byte list" where
  "raw_bytes 0 i = []"
| "raw_bytes (Suc n) i = word_of_int i # raw_bytes n (i div 256)"

definition NumericToRawBytes :: "nat \<Rightarrow> real \<Rightarrow> bool \<Rightarrow> byte list" where
  "NumericToRawBytes elementSize v isLittleEndian =
     (let rawBytes = raw_bytes elementSize (js_truncate v)
      in if isLittleEndian then rawBytes else rev rawBytes)"

subsection \<open>ArrayBuffer and DataView\<close>

text \<open>
  A \<^verbatim>\<open>DataView\<close> over a whole \<^verbatim>\<open>ArrayBuffer\<close> is the list of its bytes.  A store that
  does not fit inside the buffer throws \<^verbatim>\<open>RangeError\<close>: the result \<open>None\<close>.
\<close>

type_synonym DataView = "byte list"

definition ArrayBuffer :: "nat \<Rightarrow> DataView" where
  "ArrayBuffer n = replicate n 0"

definition SetViewValue :: "DataView \<Rightarrow> nat \<Rightarrow> bool \<Rightarrow> nat \<Rightarrow> real \<Rightarrow> DataView option" where
  "SetViewValue view requestIndex isLittleEndian elementSize v =
     (if requestIndex + elementSize > length view then None
      else Some (take requestIndex view
                 @ NumericToRawBytes elementSize v isLittleEndian
                 @ drop (requestIndex + elementSize) view))"

definition setUint8 :: "DataView \<Rightarrow> nat \<Rightarrow> real \<Rightarrow> DataView option" where
  "setUint8 view byteOffset v = SetViewValue view byteOffset True 1 v"

definition setUint16 :: "DataView \<Rightarrow> nat \<Rightarrow> real \<Rightarrow> bool \<Rightarrow> DataView option" where
  "setUint16 view byteOffset v littleEndian = SetViewValue view byteOffset littleEndian 2 v"

definition setInt16 :: "DataView \<Rightarrow> nat \<Rightarrow> real \<Rightarrow> bool \<Rightarrow> DataView option" where
  "setInt16 view byteOffset v littleEndian = SetViewValue view byteOffset littleEndian 2 v"

definition setUint32 :: "DataView \<Rightarrow> nat \<Rightarrow> real \<Rightarrow> bool \<Rightarrow> DataView option" where
  "setUint32 view byteOffset v littleEndian = SetViewValue view byteOffset littleEndian 4 v"

text \<open>Little-endian readers, used to state what a field of the output holds.\<close>

fun uint_le :: "byte list \<Rightarrow> nat" where
  "uint_le [] = 0"
| "uint_le (b # bs) = unat b + 256 * uint_le bs"

definition bytes_at :: "DataView \<Rightarrow> nat \<Rightarrow> nat \<Rightarrow> byte list" where
  "bytes_at view byteOffset n = take n (drop byteOffset view)"

definition getUint16 :: "DataView \<Rightarrow> nat \<Rightarrow> nat" where
  "getUint16 view byteOffset = uint_le (bytes_at view byteOffset 2)"

definition getUint32 :: "DataView \<Rightarrow> nat \<Rightarrow> nat" where
  "getUint32 view byteOffset = uint_le (bytes_at view byteOffset 4)"

definition getInt16 :: "DataView \<Rightarrow> nat \<Rightarrow> int" where
  "getInt16 view byteOffset =
     (let u = int (getUint16 view byteOffset) in if u < 32768 then u else u - 65536)"

text \<open>The bytes of an ASCII tag such as \<^verbatim>\<open>RIFF\<close>.\<close>

definition ascii :: "string \<Rightarrow> byte list" where
  "ascii s = map of_char s"

subsection \<open>Float32Array and AudioBuffer\<close>

text \<open>
  A \<^verbatim>\<open>Float32Array\<close> is the list of its (finite) samples.  \<^verbatim>\<open>target.set(source)\<close> copies
  \<open>source\<close> to the front of \<open>target\<close> and throws \<^verbatim>\<open>RangeError\<close> when it is longer.
\<close>

type_synonym Float32Array = "real list"

definition Float32Array :: "nat \<Rightarrow> Float32Array" where
  "Float32Array n = replicate n 0"

definition set_f32 :: "Float32Array \<Rightarrow> Float32Array \<Rightarrow> Float32Array option" where
  "set_f32 target source =
     (if length source > length target then None
      else Some (source @ drop (length source) target))"

text \<open>
  The platform's \<^verbatim>\<open>AudioBuffer\<close>: \<open>numberOfChannels\<close> channels of \<open>length\<close> sample
  frames each.  \<open>channelSample c i\<close> is frame \<open>i\<close> of channel \<open>c\<close>; the array that
  \<^verbatim>\<open>getChannelData(c)\<close> hands out has exactly \<open>length\<close> entries.
\<close>

record AudioBuffer =
  numberOfChannels :: nat
  length_ab :: nat
  sampleRate :: real
  channelSample :: "nat \<Rightarrow> nat \<Rightarrow> real"

definition getChannelData :: "AudioBuffer \<Rightarrow> nat \<Rightarrow> Float32Array" where
  "getChannelData audioBuffer c = map (channelSample audioBuffer c) [0..<length_ab audioBuffer]"

section \<open>The WAV encoder (src/lib/wavEncoder.ts)\<close>

function writeString_from :: "nat \<Rightarrow> DataView \<Rightarrow> nat \<Rightarrow> js_string \<Rightarrow> DataView option" where
  "writeString_from i view byteOffset str =
     (if i < length str
      then do { view' \<leftarrow> setUint8 view (byteOffset + i) (charCodeAt str i);
                writeString_from (Suc i) view' byteOffset str }
      else Some view)"
  by pat_completeness auto
termination
  by (relation "measure (\<lambda>(i, view, byteOffset, str). length str - i)") auto

declare writeString_from.simps [simp del]

definition writeString :: "DataView \<Rightarrow> nat \<Rightarrow> js_string \<Rightarrow> DataView option" where
  "writeString view byteOffset str = writeString_from 0 view byteOffset str"

function floatTo16BitPCM_from :: "nat \<Rightarrow> DataView \<Rightarrow> nat \<Rightarrow> Float32Array \<Rightarrow> DataView option" where
  "floatTo16BitPCM_from i view byteOffset samples =
     (if i < length samples
      then (let s = max (- 1) (min 1 (samples ! i))
            in do { view' \<leftarrow> setInt16 view (byteOffset + i * 2)
                                (if s < 0 then s * 0x8000 else s * 0x7FFF) True;
                    floatTo16BitPCM_from (Suc i) view' byteOffset samples })
      else Some view)"
  by pat_completeness auto
termination
  by (relation "measure (\<lambda>(i, view, byteOffset, samples). length samples - i)") auto

declare floatTo16BitPCM_from.simps [simp del]

definition floatTo16BitPCM :: "DataView \<Rightarrow> nat \<Rightarrow> Float32Array \<Rightarrow> DataView option" where
  "floatTo16BitPCM view byteOffset samples = floatTo16BitPCM_from 0 view byteOffset samples"

definition interleaveChannels :: "AudioBuffer \<Rightarrow> Float32Array option" where
  "interleaveChannels audioBuffer =
     (let numChannels = numberOfChannels audioBuffer;
          len = length_ab audioBuffer;
          interleaved = Float32Array (len * numChannels)
      in if numChannels = 1
         then set_f32 interleaved (getChannelData audioBuffer 0)
         else
           (let channels = map (getChannelData audioBuffer) [0..<numChannels]
            in Some (fold (\<lambda>i. fold (\<lambda>c acc. acc[i * numChannels + c := channels ! c ! i])
                                     [0..<numChannels])
                          [0..<len] interleaved)))"

definition encodeWav :: "AudioBuffer \<Rightarrow> DataView option" where
  "encodeWav audioBuffer =
     (let numChannels = numberOfChannels audioBuffer;
          sampleRate = sampleRate audioBuffer;
          bitDepth = (16::nat);
          bytesPerSample = bitDepth div 8
      in do {
        interleaved \<leftarrow> interleaveChannels audioBuffer;
        let dataSize = length interleaved * bytesPerSample;
        let view = ArrayBuffer (44 + dataSize);
        view \<leftarrow> writeString view 0 (lit ''RIFF'');
        view \<leftarrow> setUint32 view 4 (real (36 + dataSize)) True;
        view \<leftarrow> writeString view 8 (lit ''WAVE'');
        view \<leftarrow> writeString view 12 (lit ''fmt '');
        view \<leftarrow> setUint32 view 16 16 True;
        view \<leftarrow> setUint16 view 20 1 True;
        view \<leftarrow> setUint16 view 22 (real numChannels) True;
        view \<leftarrow> setUint32 view 24 sampleRate True;
        view \<leftarrow> setUint32 view 28 (sampleRate * real numChannels * real bytesPerSample) True;
        view \<leftarrow> setUint16 view 32 (real (numChannels * bytesPerSample)) True;
        view \<leftarrow> setUint16 view 34 (real bitDepth) True;
        view \<leftarrow> writeString view 36 (lit ''data'');
        view \<leftarrow> setUint32 view 40 (real dataSize) True;
        floatTo16BitPCM view 44 interleaved
      })"

subsection \<open>What the encoder leaves in the buffer\<close>

text \<open>
  The two bytes that one iteration of \<^verbatim>\<open>floatTo16BitPCM\<close> stores for a sample, and the
  44 bytes that the thirteen header stores of \<^verbatim>\<open>encodeWav\<close> leave behind, in the order of
  the stores.  Both are used to state the encoder's result in closed form.
\<close>

definition sample_bytes :: "real \<Rightarrow> byte list" where
  "sample_bytes x =
     (let s = max (- 1) (min 1 x)
      in NumericToRawBytes 2 (if s < 0 then s * 0x8000 else s * 0x7FFF) True)"

definition header_bytes :: "AudioBuffer \<Rightarrow> nat \<Rightarrow> byte list" where
  "header_bytes audioBuffer dataSize =
     map ucast (lit ''RIFF'')
     @ NumericToRawBytes 4 (real (36 + dataSize)) True
     @ map ucast (lit ''WAVE'')
     @ map ucast (lit ''fmt '')
     @ NumericToRawBytes 4 16 True
     @ NumericToRawBytes 2 1 True
     @ NumericToRawBytes 2 (real (numberOfChannels audioBuffer)) True
     @ NumericToRawBytes 4 (sampleRate audioBuffer) True
     @ NumericToRawBytes 4 (sampleRate audioBuffer * real (numberOfChannels audioBuffer)
                              * real (16 div 8 :: nat)) True
     @ NumericToRawBytes 2 (real (numberOfChannels audioBuffer * (16 div 8))) True
     @ NumericToRawBytes 2 (real (16::nat)) True
     @ map ucast (lit ''data'')
     @ NumericToRawBytes 4 (real dataSize) True"

subsection \<open>The sample conversion, in the specification's words\<close>

text \<open>
  Clamp the sample to \<open>[-1, 1]\<close>; scale a negative value by 32768 and a non-negative
  one by 32767; keep the integer part.  The result is meant to be a signed 16-bit integer.
\<close>

definition spec_clamp :: "real \<Rightarrow> real" where
  "spec_clamp s = (if s < - 1 then - 1 else if 1 < s then 1 else s)"

definition spec_pcm16 :: "real \<Rightarrow> int" where
  "spec_pcm16 s =
     (let c = spec_clamp s in js_truncate (if c < 0 then c * 32768 else c * 32767))"

section \<open>The export manager (src/lib/ExportManager.ts)\<close>

subsection \<open>Data\<close>

datatype phase = preparing | recording | encoding | complete

record ExportSettings =
  cycles :: nat
  sessionName :: js_string

record ExportProgress =
  phase :: phase
  progress :: real
  currentCycle :: "int option"
  totalCycles :: "nat option"

text \<open>
  The scheduler of the pattern engine.  \<open>cps\<close> is \<open>None\<close> when the field holds no number
  (\<^verbatim>\<open>undefined\<close> or \<^verbatim>\<open>NaN\<close>); \<open>now\<close> is the value that the call \<^verbatim>\<open>scheduler.now()\<close> returns.
\<close>

record StrudelScheduler =
  cps :: "real option"
  now :: real

text \<open>
  The three \<^verbatim>\<open>throw\<close> statements of \<^verbatim>\<open>export\<close>, by their messages, and the two platform
  errors the pipeline can meet: a \<^verbatim>\<open>RangeError\<close> of a DataView store and the rejection of
  \<^verbatim>\<open>decodeAudioData\<close>.
\<close>

datatype Error =
    TapNotSetUp       \<comment> \<open>\<^verbatim>\<open>Recording tap not set up. Call setupRecordingTap() first.\<close>\<close>
  | NoAudioRecorded   \<comment> \<open>\<^verbatim>\<open>No audio recorded\<close>\<close>
  | ZipFolderFailed   \<comment> \<open>\<^verbatim>\<open>Failed to create ZIP folder\<close>\<close>
  | RangeError
  | EncodingError

type_synonym Blob = "byte list"

text \<open>Audio nodes are platform objects; a node is represented by its identity.\<close>

type_synonym AudioNode = nat

type_synonym MediaStreamAudioDestinationNode = AudioNode

text \<open>\<^verbatim>\<open>MediaRecorder.state\<close>; the recorder is never paused.\<close>

datatype RecordingState = state_inactive | state_recording

record ExportManager =
  mediaStreamDest :: "MediaStreamAudioDestinationNode option"
  recorder :: "RecordingState option"
  chunks :: "Blob list"

text \<open>The archive that \<^verbatim>\<open>zip.generateAsync\<close> produces: one folder with one file.\<close>

record ZipArchive =
  folderName :: js_string
  fileName :: js_string
  fileData :: DataView

text \<open>
  How a call of \<^verbatim>\<open>export\<close> ends: its promise resolves with the archive, rejects with an
  error, or stays pending because the recording promise is never resolved.
\<close>

datatype Outcome =
    is_Resolved: Resolved ZipArchive
  | is_Rejected: Rejected Error
  | Pending

subsection \<open>The environment of one call\<close>

text \<open>
  What the single-threaded event loop delivers while the recording promise is pending,
  in order: an animation frame (with the value \<^verbatim>\<open>Date.now()\<close> has during the callback),
  a \<^verbatim>\<open>dataavailable\<close> event with its blob, an \<^verbatim>\<open>error\<close> event of the recorder, or the
  platform putting the recorder into the state \<^verbatim>\<open>inactive\<close> on its own.
\<close>

datatype event =
    AnimationFrame int
  | DataAvailable Blob
  | RecorderError
  | RecorderInactivated

text \<open>
  \<open>startTime\<close> and \<open>firstCheck\<close> are the values of \<^verbatim>\<open>Date.now()\<close> when the recording starts
  and at the direct first call of \<^verbatim>\<open>checkProgress\<close>; \<open>flushed\<close> are the blobs of the
  \<^verbatim>\<open>dataavailable\<close> events between \<^verbatim>\<open>recorder.stop()\<close> and the \<^verbatim>\<open>stop\<close> event;
  \<open>decodeAudioData\<close> is the decoder of the audio context (\<open>Inl\<close> when it rejects);
  \<open>zipFolder\<close> tells whether \<^verbatim>\<open>zip.folder(name)\<close> returns a folder.  Constructing and
  starting the recorder are taken to succeed.
\<close>

record Env =
  startTime :: int
  firstCheck :: int
  events :: "event list"
  flushed :: "Blob list"
  decodeAudioData :: "Blob \<Rightarrow> Error + AudioBuffer"
  zipFolder :: "js_string \<Rightarrow> bool"

text \<open>
  What a call of \<^verbatim>\<open>export\<close> did: how it ended, the snapshots passed to \<^verbatim>\<open>onProgress\<close> in
  order, the milliseconds passed to \<^verbatim>\<open>wait\<close> (if it got there), and the manager's fields
  afterwards.
\<close>

record ExportRun =
  outcome :: Outcome
  reported :: "ExportProgress list"
  waited :: "real option"
  manager :: ExportManager

subsection \<open>sanitizeName\<close>

text \<open>The class \<^verbatim>\<open>[a-zA-Z0-9-_]\<close> of the regular expression, on UTF-16 code units.\<close>

definition name_char :: "16 word \<Rightarrow> bool" where
  "name_char c \<longleftrightarrow>
     (of_char CHR ''a'' \<le> c \<and> c \<le> of_char CHR ''z'')
   \<or> (of_char CHR ''A'' \<le> c \<and> c \<le> of_char CHR ''Z'')
   \<or> (of_char CHR ''0'' \<le> c \<and> c \<le> of_char CHR ''9'')
   \<or> c = of_char CHR ''-'' \<or> c = of_char CHR ''_''"

text \<open>\<^verbatim>\<open>str.replace(/[^...]/g, replacement)\<close>: every code unit outside the class is a match.\<close>

definition replace_outside :: "(16 word \<Rightarrow> bool) \<Rightarrow> js_string \<Rightarrow> js_string \<Rightarrow> js_string" where
  "replace_outside cls str replacement =
     concat (map (\<lambda>c. if cls c then [c] else replacement) str)"

definition substring :: "js_string \<Rightarrow> nat \<Rightarrow> nat \<Rightarrow> js_string" where
  "substring str start end = (let a = min start end; b = max start end in take (b - a) (drop a str))"

definition sanitizeName :: "js_string \<Rightarrow> js_string" where
  "sanitizeName name =
     (let s = substring (replace_outside name_char name (lit ''_'')) 0 50
      in if s = [] then lit ''export'' else s)"

subsection \<open>export\<close>

text \<open>
  The local constants of \<^verbatim>\<open>export\<close> as functions of its arguments: \<^verbatim>\<open>scheduler.cps || 0.5\<close>
  (0, \<^verbatim>\<open>NaN\<close> and \<^verbatim>\<open>undefined\<close> are falsy), \<^verbatim>\<open>cycleDuration\<close>, \<^verbatim>\<open>totalDuration\<close> and
  \<^verbatim>\<open>waitTime\<close>.  Each division, subtraction and multiplication is rounded; \<^verbatim>\<open>Math.ceil\<close>
  and the difference of two clock readings are exact.
\<close>

definition effective_cps :: "StrudelScheduler \<Rightarrow> real" where
  "effective_cps scheduler =
     (case cps scheduler of None \<Rightarrow> 0.5 | Some c \<Rightarrow> if c = 0 then 0.5 else c)"

definition cycleDuration :: "StrudelScheduler \<Rightarrow> real" where
  "cycleDuration scheduler = fl (1 / effective_cps scheduler)"

definition totalDuration :: "ExportSettings \<Rightarrow> StrudelScheduler \<Rightarrow> real" where
  "totalDuration settings scheduler = fl (real (cycles settings) * cycleDuration scheduler)"

definition waitTime :: "StrudelScheduler \<Rightarrow> real" where
  "waitTime scheduler =
     (let currentCycle' = now scheduler;
          nextCycle = real_of_int \<lceil>currentCycle'\<rceil>
      in fl (fl (nextCycle - currentCycle') * cycleDuration scheduler))"

definition ondataavailable :: "Blob \<Rightarrow> ExportManager \<Rightarrow> ExportManager" where
  "ondataavailable d this = (if length d > 0 then this\<lparr>chunks := chunks this @ [d]\<rparr> else this)"

text \<open>The handler only writes to the console.\<close>

definition onerror :: "ExportManager \<Rightarrow> ExportManager" where
  "onerror this = this"

text \<open>
  The body of \<^verbatim>\<open>checkProgress\<close> up to its call of \<^verbatim>\<open>onProgress\<close>: the snapshot for the
  clock reading \<open>dateNow\<close>.  (With \<open>durationMs = 0\<close>, which needs zero cycles, the program's
  quotient is not a finite number and this value does not represent it.)
\<close>

definition checkProgress :: "ExportSettings \<Rightarrow> real \<Rightarrow> int \<Rightarrow> int \<Rightarrow> ExportProgress" where
  "checkProgress settings durationMs t0 dateNow =
     (let elapsed = real_of_int (dateNow - t0);
          progress' = min 100 (fl (fl (elapsed / durationMs) * 100));
          currentCycle' = \<lfloor>fl (fl (elapsed / durationMs) * real (cycles settings))\<rfloor>
      in \<lparr>phase = recording, progress = progress', currentCycle = Some currentCycle',
          totalCycles = Some (cycles settings)\<rparr>)"

text \<open>
  The recording promise.  Each animation frame runs \<^verbatim>\<open>checkProgress\<close>, which reports a
  snapshot and then either resolves the promise or requests the next frame; the other
  events run their handlers.  The result says whether the promise was resolved.
\<close>

fun recordingLoop ::
  "ExportSettings \<Rightarrow> real \<Rightarrow> int \<Rightarrow> event list \<Rightarrow> ExportManager \<times> ExportProgress list
     \<Rightarrow> bool \<times> ExportManager \<times> ExportProgress list" where
  "recordingLoop settings durationMs t0 [] (this, reports) = (False, this, reports)"
| "recordingLoop settings durationMs t0 (AnimationFrame t # es) (this, reports) =
     (let reports' = reports @ [checkProgress settings durationMs t0 t]
      in if real_of_int (t - t0) \<ge> durationMs then (True, this, reports')
         else recordingLoop settings durationMs t0 es (this, reports'))"
| "recordingLoop settings durationMs t0 (DataAvailable d # es) (this, reports) =
     recordingLoop settings durationMs t0 es (ondataavailable d this, reports)"
| "recordingLoop settings durationMs t0 (RecorderError # es) (this, reports) =
     recordingLoop settings durationMs t0 es (onerror this, reports)"
| "recordingLoop settings durationMs t0 (RecorderInactivated # es) (this, reports) =
     recordingLoop settings durationMs t0 es (this\<lparr>recorder := Some state_inactive\<rparr>, reports)"

definition blobToAudioBuffer :: "Env \<Rightarrow> Blob \<Rightarrow> AudioBuffer option" where
  "blobToAudioBuffer env blob =
     (case decodeAudioData env blob of Inr audioBuffer \<Rightarrow> Some audioBuffer | Inl err \<Rightarrow> None)"

definition stopRecording :: "Env \<Rightarrow> ExportManager \<Rightarrow> AudioBuffer option \<times> ExportManager" where
  "stopRecording env this =
     (if recorder this = None \<or> recorder this = Some state_inactive then (None, this)
      else
        (let stopped = (fold ondataavailable (flushed env) this)\<lparr>recorder := Some state_inactive\<rparr>
         in if length (chunks stopped) = 0 then (None, stopped)
            else (blobToAudioBuffer env (concat (chunks stopped)), stopped)))"

definition export :: "Env \<Rightarrow> ExportManager \<Rightarrow> ExportSettings \<Rightarrow> StrudelScheduler \<Rightarrow> ExportRun" where
  "export env this settings scheduler =
     (let reports0 = [\<lparr>phase = preparing, progress = 0, currentCycle = None, totalCycles = None\<rparr>]
      in if mediaStreamDest this = None
         then \<lparr>outcome = Rejected TapNotSetUp, reported = reports0, waited = None, manager = this\<rparr>
         else
           (let waitMs = max 0 (fl (waitTime scheduler * 1000));
                reports1 = reports0 @ [\<lparr>phase = recording, progress = 0, currentCycle = Some 0,
                                 totalCycles = Some (cycles settings)\<rparr>];
                started = this\<lparr>chunks := [], recorder := Some state_recording\<rparr>;
                durationMs = fl (totalDuration settings scheduler * 1000)
            in case recordingLoop settings durationMs (startTime env)
                      (AnimationFrame (firstCheck env) # events env) (started, reports1) of
                 (False, this', reports2) \<Rightarrow>
                   \<lparr>outcome = Pending, reported = reports2, waited = Some waitMs, manager = this'\<rparr>
               | (True, this', reports2) \<Rightarrow>
                   (let (audioBuffer, this'') = stopRecording env this';
                        reports3 = reports2 @ [\<lparr>phase = encoding, progress = 50, currentCycle = None,
                                         totalCycles = None\<rparr>]
                    in case audioBuffer of
                         None \<Rightarrow> \<lparr>outcome = Rejected NoAudioRecorded, reported = reports3,
                                   waited = Some waitMs, manager = this''\<rparr>
                       | Some buffer \<Rightarrow>
                           (case encodeWav buffer of
                              None \<Rightarrow> \<lparr>outcome = Rejected RangeError, reported = reports3,
                                        waited = Some waitMs, manager = this''\<rparr>
                            | Some wavData \<Rightarrow>
                                (let reports4 = reports3 @ [\<lparr>phase = encoding, progress = 80,
                                                     currentCycle = None, totalCycles = None\<rparr>];
                                     name = sanitizeName (sessionName settings)
                                 in if \<not> zipFolder env name
                                    then \<lparr>outcome = Rejected ZipFolderFailed, reported = reports4,
                                          waited = Some waitMs, manager = this''\<rparr>
                                    else \<lparr>outcome = Resolved \<lparr>folderName = name, fileName = lit ''mix.wav'',
                                                               fileData = wavData\<rparr>,
                                          reported = reports4 @ [\<lparr>phase = complete, progress = 100,
                                                              currentCycle = None, totalCycles = None\<rparr>],
                                          waited = Some waitMs, manager = this''\<rparr>)))))"

subsection \<open>Notions used to state properties of a run\<close>

text \<open>
  The times of the animation frames among the events, and the condition that the
  recording promise is resolved at all: some call of \<^verbatim>\<open>checkProgress\<close> (the direct first
  one or a later frame) sees the target duration elapsed.
\<close>

fun frame_times :: "event list \<Rightarrow> int list" where
  "frame_times [] = []"
| "frame_times (AnimationFrame t # es) = t # frame_times es"
| "frame_times (e # es) = frame_times es"

definition recording_ends :: "Env \<Rightarrow> ExportSettings \<Rightarrow> StrudelScheduler \<Rightarrow> bool" where
  "recording_ends env settings scheduler \<longleftrightarrow>
     (\<exists>t \<in> set (firstCheck env # frame_times (events env)).
        fl (totalDuration settings scheduler * 1000) \<le> real_of_int (t - startTime env))"





text \<open>
  Concrete sessions on which the model is evaluated: one cycle at one cycle per second
  (a target duration of 1000 ms), a recording destination in place, a decoder result of
  zero frames, and the events of a recording in which the recorder fails: the platform
  makes it inactive and fires its \<^verbatim>\<open>error\<close> event.
\<close>

definition ex_this :: ExportManager where
  "ex_this = \<lparr>mediaStreamDest = Some 7, recorder = None, chunks = []\<rparr>"

definition ex_settings :: ExportSettings where
  "ex_settings = \<lparr>cycles = 1, sessionName = lit ''demo''\<rparr>"

definition ex_scheduler :: StrudelScheduler where
  "ex_scheduler = \<lparr>cps = Some 1, now = 0\<rparr>"

definition ex_silence :: AudioBuffer where
  "ex_silence = \<lparr>numberOfChannels = 1, length_ab = 0, sampleRate = 48000,
                  channelSample = (\<lambda>c i. 0)\<rparr>"

definition ex_env :: "event list \<Rightarrow> Blob list \<Rightarrow> (Blob \<Rightarrow> Error + AudioBuffer) \<Rightarrow> Env" where
  "ex_env es final dec = \<lparr>startTime = 0, firstCheck = 0, events = es, flushed = final,
                           decodeAudioData = dec, zipFolder = (\<lambda>name. True)\<rparr>"


section \<open>The audio-graph tap (src/components/Editor.tsx)\<close>

text \<open>
  The module-level variables of the tap.  An audio context is represented by the one
  field the wrapper reads, its \<open>destination\<close> node; nodes and parameters are compared by
  identity, as \<^verbatim>\<open>===\<close> does.
\<close>

datatype Destination = Node AudioNode | Param nat

record AudioContext =
  destination :: AudioNode

record TapState =
  recordingDestination :: "MediaStreamAudioDestinationNode option"
  isRecordingActive :: bool
  audioContextRef :: "AudioContext option"

text \<open>
  The platform's own \<^verbatim>\<open>AudioNode.prototype.connect\<close>, saved in \<^verbatim>\<open>originalConnect\<close>: called
  on a node with a destination and the list of the arguments that follow the destination,
  it changes the audio graph \<open>'g\<close> and returns a value \<open>'r\<close> or throws \<open>'e\<close>.  The length of
  the list is the number of arguments passed after the destination; \<open>None\<close> is an argument
  that is \<^verbatim>\<open>undefined\<close>.  Nothing more is assumed about it.
\<close>

type_synonym ('g, 'e, 'r) connect =
  "'g \<Rightarrow> AudioNode \<Rightarrow> Destination \<Rightarrow> nat option list \<Rightarrow> ('e + 'r) \<times> 'g"

text \<open>
  The value of the \<open>i\<close>-th optional parameter of a function called with the arguments
  \<open>args\<close>: \<^verbatim>\<open>undefined\<close> when no such argument was passed.
\<close>

definition parameter :: "nat option list \<Rightarrow> nat \<Rightarrow> nat option" where
  "parameter args i = (if i < length args then args ! i else None)"

text \<open>What the wrapper writes to the console.\<close>

datatype 'e console =
    ConnectCalled AudioNode Destination bool bool
  | RoutingToRecording
  | FailedToRoute 'e

text \<open>
  The function that \<^verbatim>\<open>patchAudioConnect\<close> installs as \<^verbatim>\<open>AudioNode.prototype.connect\<close>.  It
  reads the module-level variables when it is called, so their current values are an
  argument.  The observable world is the audio graph together with the console.  Whatever
  the number of arguments it is called with, the wrapper calls the original with three:
  the destination and its own two parameters.  The second call of the original passes the
  recording destination alone.
\<close>

definition patched_connect ::
  "TapState \<Rightarrow> ('g, 'e, 'r) connect \<Rightarrow> 'g \<times> 'e console list
     \<Rightarrow> AudioNode \<Rightarrow> Destination \<Rightarrow> nat option list
     \<Rightarrow> ('e + 'r) \<times> ('g \<times> 'e console list)" where
  "patched_connect tap originalConnect world this dest args =
     (let outputIndex = parameter args 0;
          inputIndex = parameter args 1
      in case originalConnect (fst world) this dest [outputIndex, inputIndex] of
           (Inl err, graph) \<Rightarrow> (Inl err, (graph, snd world))
         | (Inr result, graph) \<Rightarrow>
             (let out1 =
                    (case audioContextRef tap of
                       Some ctx \<Rightarrow>
                         if isRecordingActive tap
                         then snd world @ [ConnectCalled this dest (dest = Node (destination ctx))
                                             (recordingDestination tap \<noteq> None)]
                         else snd world
                     | None \<Rightarrow> snd world)
              in case (isRecordingActive tap, recordingDestination tap, audioContextRef tap) of
                   (True, Some recDest, Some ctx) \<Rightarrow>
                     if dest = Node (destination ctx)
                     then (case originalConnect graph this (Node recDest) [] of
                             (Inr _, graph') \<Rightarrow> (Inr result, (graph', out1 @ [RoutingToRecording]))
                           | (Inl e, graph') \<Rightarrow>
                               (Inr result, (graph', out1 @ [RoutingToRecording, FailedToRoute e])))
                     else (Inr result, (graph, out1))
                 | _ \<Rightarrow> (Inr result, (graph, out1))))"

subsection \<open>The connect of the Web Audio API\<close>

text \<open>
  \<^verbatim>\<open>AudioNode.prototype.connect\<close> is not code of this program.  The interface of the Web
  Audio API gives it two overloads, \<^verbatim>\<open>connect(destinationNode, output = 0, input = 0)\<close>,
  which returns the destination node, and \<^verbatim>\<open>connect(destinationParam, output = 0)\<close>, which
  returns \<^verbatim>\<open>undefined\<close>.  An overload is chosen by the number of arguments passed, before
  their values are looked at: a call with three arguments or more can only be the first
  overload, and it throws a \<^verbatim>\<open>TypeError\<close> when its destination is not a node.  With one or
  two arguments the kind of the destination decides.  An index that is \<^verbatim>\<open>undefined\<close> takes
  its default.  A graph is the set of its connections (source, destination, output,
  input); the checks of an index against the numbers of outputs and inputs of the nodes
  are not represented.
\<close>

datatype DOMError = TypeError

type_synonym AudioGraph = "(AudioNode \<times> Destination \<times> nat \<times> nat) set"

definition index_argument :: "nat option list \<Rightarrow> nat \<Rightarrow> nat" where
  "index_argument args i = (case parameter args i of None \<Rightarrow> 0 | Some k \<Rightarrow> k)"

definition platform_connect :: "(AudioGraph, DOMError, AudioNode option) connect" where
  "platform_connect graph this dest args =
     (case dest of
        Node n \<Rightarrow>
          (Inr (Some n), insert (this, dest, index_argument args 0, index_argument args 1) graph)
      | Param p \<Rightarrow>
          if 2 \<le> length args then (Inl TypeError, graph)
          else (Inr None, insert (this, dest, index_argument args 0, 0) graph))"

section \<open>Properties of the WAV encoder\<close>

subsection \<open>Stores into a DataView\<close>

lemma length_raw_bytes: "length (raw_bytes n i) = n"
  by (induction n arbitrary: i) simp_all

lemma length_NumericToRawBytes: "length (NumericToRawBytes n v le) = n"
  by (simp add: NumericToRawBytes_def Let_def length_raw_bytes)

lemma SetViewValue_step:
  assumes "take k view = P" and "length view = L" and "k + n \<le> L"
  shows "\<exists>view'. SetViewValue view k le n x = Some view'
           \<and> take (k + n) view' = P @ NumericToRawBytes n x le \<and> length view' = L"
proof -
  have "length P = k" using assms by auto
  then show ?thesis
    using assms by (simp add: SetViewValue_def length_NumericToRawBytes)
qed

lemma SetViewValue_Some:
  "k + n \<le> length view \<Longrightarrow>
   SetViewValue view k le n x = Some (take k view @ NumericToRawBytes n x le @ drop (k + n) view)"
  by (simp add: SetViewValue_def)

lemma take_patch:
  "k + n \<le> length v \<Longrightarrow> length bs = n \<Longrightarrow>
   take (k + n) (take k v @ bs @ drop (k + n) v) = take k v @ bs"
  by simp

lemma drop_patch:
  assumes "k + n \<le> m" and "length bs = n" and "k + n \<le> length v"
  shows "drop m (take k v @ bs @ drop (k + n) v) = drop m v"
proof -
  have "m - k - n + (k + n) = m" using assms by simp
  then show ?thesis using assms by (simp add: min_absorb2)
qed

lemma js_truncate_of_nat: "js_truncate (real n) = int n"
  by (simp add: js_truncate_def)

lemma char_byte: "NumericToRawBytes (Suc 0) (charCodeAt str i) True = [ucast (str ! i)]"
proof -
  have "(word_of_int (int (unat (str ! i))) :: byte) = ucast (str ! i)"
    by simp
  then show ?thesis
    unfolding NumericToRawBytes_def charCodeAt_def js_truncate_of_nat by simp
qed

lemma writeString_from_Some:
  "i \<le> length str \<Longrightarrow> k + length str \<le> length view \<Longrightarrow>
   writeString_from i view k str
     = Some (take (k + i) view @ map ucast (drop i str) @ drop (k + length str) view)"
proof (induction i view k str rule: writeString_from.induct)
  case (1 i view k str)
  show ?case
  proof (cases "i < length str")
    case False
    with "1.prems" show ?thesis
      by (subst writeString_from.simps) simp
  next
    case True
    define view' where "view' = take (k + i) view @ [ucast (str ! i)] @ drop (k + i + 1) view"
    have st: "setUint8 view (k + i) (charCodeAt str i) = Some view'"
      using True "1.prems" by (simp add: setUint8_def SetViewValue_Some char_byte view'_def)
    have len: "length view' = length view"
      using True "1.prems" by (simp add: view'_def)
    have ih: "writeString_from (Suc i) view' k str
       = Some (take (k + Suc i) view' @ map ucast (drop (Suc i) str) @ drop (k + length str) view')"
      using "1.IH"[OF True st] True "1.prems" len by simp
    have t: "take (Suc (k + i)) view' = take (k + i) view @ [ucast (str ! i)]"
      using True "1.prems" take_patch [of "k + i" 1 view "[ucast (str ! i)]"]
      by (simp add: view'_def)
    have d: "drop (k + length str) view' = drop (k + length str) view"
      using True "1.prems" drop_patch [of "k + i" 1 "k + length str" "[ucast (str ! i)]" view]
      by (simp add: view'_def)
    have c: "drop i str = str ! i # drop (Suc i) str"
      using True by (simp add: Cons_nth_drop_Suc)
    show ?thesis
      using True st ih by (subst writeString_from.simps) (simp add: t d c)
  qed
qed

lemma writeString_step:
  assumes "take k view = P" and "length view = L" and "k + length str \<le> L"
  shows "\<exists>view'. writeString view k str = Some view'
           \<and> take (k + length str) view' = P @ map ucast str \<and> length view' = L"
proof -
  have "length P = k" using assms by auto
  then show ?thesis
    using assms by (simp add: writeString_def writeString_from_Some)
qed

lemma length_sample_bytes: "length (sample_bytes x) = 2"
  by (simp add: sample_bytes_def Let_def length_NumericToRawBytes)

lemma floatTo16BitPCM_from_Some:
  "i \<le> length samples \<Longrightarrow> k + 2 * length samples \<le> length view \<Longrightarrow>
   floatTo16BitPCM_from i view k samples
     = Some (take (k + 2 * i) view @ concat (map sample_bytes (drop i samples))
             @ drop (k + 2 * length samples) view)"
proof (induction i view k samples rule: floatTo16BitPCM_from.induct)
  case (1 i view k samples)
  show ?case
  proof (cases "i < length samples")
    case False
    with "1.prems" show ?thesis
      by (subst floatTo16BitPCM_from.simps) simp
  next
    case True
    define x where "x = (let s = max (- 1) (min 1 (samples ! i))
                          in if s < 0 then s * 0x8000 else s * 0x7FFF)"
    define bs where "bs = NumericToRawBytes 2 x True"
    define view' where "view' = take (k + i * 2) view @ bs @ drop (k + i * 2 + 2) view"
    have unfold: "floatTo16BitPCM_from i view k samples
        = setInt16 view (k + i * 2) x True
            \<bind> (\<lambda>view'. floatTo16BitPCM_from (Suc i) view' k samples)"
      by (subst floatTo16BitPCM_from.simps) (simp only: True if_True x_def Let_def)
    have sb: "sample_bytes (samples ! i) = bs"
      by (simp only: sample_bytes_def bs_def x_def Let_def)
    have lbs: "length bs = 2" by (simp add: bs_def length_NumericToRawBytes)
    have fits: "k + i * 2 + 2 \<le> length view" using True "1.prems" by simp
    have st: "setInt16 view (k + i * 2) x True = Some view'"
      using fits by (simp add: setInt16_def SetViewValue_Some view'_def bs_def)
    have len: "length view' = length view"
      using fits lbs by (simp add: view'_def)
    have ih: "floatTo16BitPCM_from (Suc i) view' k samples
       = Some (take (k + 2 * Suc i) view' @ concat (map sample_bytes (drop (Suc i) samples))
               @ drop (k + 2 * length samples) view')"
    proof (rule "1.IH"[OF True refl])
      show "setInt16 view (k + i * 2)
              (if max (- 1) (min 1 (samples ! i)) < 0
               then max (- 1) (min 1 (samples ! i)) * 0x8000
               else max (- 1) (min 1 (samples ! i)) * 0x7FFF) True = Some view'"
        using st by (simp only: x_def Let_def)
      show "Suc i \<le> length samples" using True by simp
      show "k + 2 * length samples \<le> length view'" using "1.prems" len by simp
    qed
    have t: "take (Suc (Suc (k + 2 * i))) view' = take (k + 2 * i) view @ bs"
    proof -
      have e: "Suc (Suc (k + 2 * i)) = k + i * 2 + 2" by simp
      have e2: "k + 2 * i = k + i * 2" by simp
      have "take (k + i * 2 + 2) view' = take (k + i * 2) view @ bs"
        unfolding view'_def using fits lbs by (rule take_patch)
      then show ?thesis by (metis e e2)
    qed
    have d: "drop (k + 2 * length samples) view' = drop (k + 2 * length samples) view"
      using True fits lbs drop_patch [of "k + i * 2" 2 "k + 2 * length samples" bs view]
      by (simp add: view'_def)
    have c: "drop i samples = samples ! i # drop (Suc i) samples"
      using True by (simp add: Cons_nth_drop_Suc)
    show ?thesis
      unfolding unfold st by (simp add: ih t d c sb)
  qed
qed

lemma floatTo16BitPCM_Some:
  "k + 2 * length samples \<le> length view \<Longrightarrow>
   floatTo16BitPCM view k samples
     = Some (take k view @ concat (map sample_bytes samples) @ drop (k + 2 * length samples) view)"
  by (simp add: floatTo16BitPCM_def floatTo16BitPCM_from_Some)

lemma length_fold_update:
  "length (fold (\<lambda>c acc. acc[f c := g c]) cs acc) = length acc"
  by (induction cs arbitrary: acc) simp_all

lemma length_fold_fold_update:
  "length (fold (\<lambda>i. fold (\<lambda>c acc. acc[f i c := g i c]) (cs i)) is acc) = length acc"
  by (induction "is" arbitrary: acc) (simp_all add: length_fold_update)

lemma interleaveChannels_Some:
  "\<exists>interleaved. interleaveChannels ab = Some interleaved
     \<and> length interleaved = length_ab ab * numberOfChannels ab"
  by (simp add: interleaveChannels_def Let_def Float32Array_def set_f32_def getChannelData_def
      length_fold_fold_update)

lemma length_lit4 [simp]: "length (lit [a, b, c, d]) = 4"
  by (simp add: lit_def)

lemma encodeWav_Some:
  assumes il: "interleaveChannels ab = Some xs"
  shows "encodeWav ab
      = Some (header_bytes ab (length xs * (16 div 8)) @ concat (map sample_bytes xs))"
proof -
  define ds where "ds = length xs * ((16::nat) div 8)"
  define L where "L = 44 + ds"
  define v0 where "v0 = ArrayBuffer L"
  define nc where "nc = numberOfChannels ab"
  define sr where "sr = sampleRate ab"
  define h0 where "h0 = ([] :: byte list)"
  have l0: "length v0 = L" and t0: "take 0 v0 = h0"
    by (simp_all add: v0_def ArrayBuffer_def h0_def)
  define h1 where "h1 = h0 @ map ucast (lit ''RIFF'')"
  obtain v1 where s1: "writeString v0 0 (lit ''RIFF'') = Some v1"
    and t1: "take 4 v1 = h1" and l1: "length v1 = L"
    using writeString_step [OF t0 l0, of "lit ''RIFF''"]
    by (auto simp: L_def h1_def)
  define h2 where "h2 = h1 @ NumericToRawBytes 4 (real (36 + ds)) True"
  obtain v2 where s2: "setUint32 v1 4 (real (36 + ds)) True = Some v2"
    and t2: "take 8 v2 = h2" and l2: "length v2 = L"
    using SetViewValue_step [OF t1 l1, of 4 True "real (36 + ds)"]
    by (auto simp: L_def setUint32_def h2_def)
  define h3 where "h3 = h2 @ map ucast (lit ''WAVE'')"
  obtain v3 where s3: "writeString v2 8 (lit ''WAVE'') = Some v3"
    and t3: "take 12 v3 = h3" and l3: "length v3 = L"
    using writeString_step [OF t2 l2, of "lit ''WAVE''"]
    by (auto simp: L_def h3_def)
  define h4 where "h4 = h3 @ map ucast (lit ''fmt '')"
  obtain v4 where s4: "writeString v3 12 (lit ''fmt '') = Some v4"
    and t4: "take 16 v4 = h4" and l4: "length v4 = L"
    using writeString_step [OF t3 l3, of "lit ''fmt ''"]
    by (auto simp: L_def h4_def)
  define h5 where "h5 = h4 @ NumericToRawBytes 4 16 True"
  obtain v5 where s5: "setUint32 v4 16 16 True = Some v5"
    and t5: "take 20 v5 = h5" and l5: "length v5 = L"
    using SetViewValue_step [OF t4 l4, of 4 True "16"]
    by (auto simp: L_def setUint32_def h5_def)
  define h6 where "h6 = h5 @ NumericToRawBytes 2 1 True"
  obtain v6 where s6: "setUint16 v5 20 1 True = Some v6"
    and t6: "take 22 v6 = h6" and l6: "length v6 = L"
    using SetViewValue_step [OF t5 l5, of 2 True "1"]
    by (auto simp: L_def setUint16_def h6_def)
  define h7 where "h7 = h6 @ NumericToRawBytes 2 (real nc) True"
  obtain v7 where s7: "setUint16 v6 22 (real nc) True = Some v7"
    and t7: "take 24 v7 = h7" and l7: "length v7 = L"
    using SetViewValue_step [OF t6 l6, of 2 True "real nc"]
    by (auto simp: L_def setUint16_def h7_def)
  define h8 where "h8 = h7 @ NumericToRawBytes 4 sr True"
  obtain v8 where s8: "setUint32 v7 24 sr True = Some v8"
    and t8: "take 28 v8 = h8" and l8: "length v8 = L"
    using SetViewValue_step [OF t7 l7, of 4 True "sr"]
    by (auto simp: L_def setUint32_def h8_def)
  define h9 where "h9 = h8 @ NumericToRawBytes 4 (sr * real nc * real ((16::nat) div 8)) True"
  obtain v9 where s9: "setUint32 v8 28 (sr * real nc * real ((16::nat) div 8)) True = Some v9"
    and t9: "take 32 v9 = h9" and l9: "length v9 = L"
    using SetViewValue_step [OF t8 l8, of 4 True "sr * real nc * real ((16::nat) div 8)"]
    by (auto simp: L_def setUint32_def h9_def)
  define h10 where "h10 = h9 @ NumericToRawBytes 2 (real (nc * ((16::nat) div 8))) True"
  obtain v10 where s10: "setUint16 v9 32 (real (nc * ((16::nat) div 8))) True = Some v10"
    and t10: "take 34 v10 = h10" and l10: "length v10 = L"
    using SetViewValue_step [OF t9 l9, of 2 True "real (nc * ((16::nat) div 8))"]
    by (auto simp: L_def setUint16_def h10_def)
  define h11 where "h11 = h10 @ NumericToRawBytes 2 (real (16::nat)) True"
  obtain v11 where s11: "setUint16 v10 34 (real (16::nat)) True = Some v11"
    and t11: "take 36 v11 = h11" and l11: "length v11 = L"
    using SetViewValue_step [OF t10 l10, of 2 True "real (16::nat)"]
    by (auto simp: L_def setUint16_def h11_def)
  define h12 where "h12 = h11 @ map ucast (lit ''data'')"
  obtain v12 where s12: "writeString v11 36 (lit ''data'') = Some v12"
    and t12: "take 40 v12 = h12" and l12: "length v12 = L"
    using writeString_step [OF t11 l11, of "lit ''data''"]
    by (auto simp: L_def h12_def)
  define h13 where "h13 = h12 @ NumericToRawBytes 4 (real ds) True"
  obtain v13 where s13: "setUint32 v12 40 (real ds) True = Some v13"
    and t13: "take 44 v13 = h13" and l13: "length v13 = L"
    using SetViewValue_step [OF t12 l12, of 4 True "real ds"]
    by (auto simp: L_def setUint32_def h13_def)
  have h: "h13 = header_bytes ab ds"
    by (simp add: header_bytes_def nc_def sr_def h0_def h1_def h2_def h3_def h4_def h5_def
        h6_def h7_def h8_def h9_def h10_def h11_def h12_def h13_def)
  have s14: "floatTo16BitPCM v13 44 xs = Some (header_bytes ab ds @ concat (map sample_bytes xs))"
    using floatTo16BitPCM_Some [of 44 xs v13] l13 t13 h by (simp add: L_def ds_def)
  show ?thesis
    unfolding encodeWav_def Let_def il
    using s1 s2 s3 s4 s5 s6 s7 s8 s9 s10 s11 s12 s13 s14
    by (simp add: v0_def L_def ds_def nc_def sr_def)
qed

lemma uint_le_raw_bytes_mod: "uint_le (raw_bytes n i) = nat (i mod 256 ^ n)"
proof (induction n arbitrary: i)
  case 0 then show ?case by simp
next
  case (Suc n)
  have c: "unat (word_of_int i :: byte) = nat (i mod 256)"
    by (simp add: unat_eq_nat_uint uint_word_of_int)
  have "i mod 256 ^ Suc n = 256 * (i div 256 mod 256 ^ n) + i mod 256"
    using zmod_zmult2_eq [of "256 ^ n" i 256] by simp
  then have "nat (i mod 256 ^ Suc n) = nat (i mod 256 + 256 * (i div 256 mod 256 ^ n))"
    by (simp add: add.commute)
  also have "\<dots> = nat (i mod 256) + nat (256 * (i div 256 mod 256 ^ n))"
    by (intro nat_add_distrib) simp_all
  also have "nat (256 * (i div 256 mod 256 ^ n)) = 256 * nat (i div 256 mod 256 ^ n)"
    by (simp add: nat_mult_distrib)
  finally show ?case using Suc.IH [of "i div 256"] c by simp
qed

lemma uint_le_of_nat:
  "m < 256 ^ n \<Longrightarrow> uint_le (NumericToRawBytes n (real m) True) = m"
proof -
  assume "m < 256 ^ n"
  then have "int m < int (256 ^ n)" by (simp only: of_nat_less_iff)
  then have "int m mod 256 ^ n = int m" by simp
  then show ?thesis
    by (simp add: NumericToRawBytes_def js_truncate_of_nat uint_le_raw_bytes_mod)
qed

lemma length_ucast_lit [simp]: "length (map f (lit s)) = length s"
  by (simp add: lit_def)

lemma length_header_bytes: "length (header_bytes ab ds) = 44"
  by (simp add: header_bytes_def length_NumericToRawBytes)

lemma bytes_at_header:
  "bytes_at (header_bytes ab ds @ rest) 0 4 = ascii ''RIFF''"
  "bytes_at (header_bytes ab ds @ rest) 4 4 = NumericToRawBytes 4 (real (36 + ds)) True"
  "bytes_at (header_bytes ab ds @ rest) 8 4 = ascii ''WAVE''"
  "bytes_at (header_bytes ab ds @ rest) 12 4 = ascii ''fmt ''"
  "bytes_at (header_bytes ab ds @ rest) 16 4 = NumericToRawBytes 4 (real (16::nat)) True"
  "bytes_at (header_bytes ab ds @ rest) 20 2 = NumericToRawBytes 2 (real (1::nat)) True"
  "bytes_at (header_bytes ab ds @ rest) 22 2 = NumericToRawBytes 2 (real (numberOfChannels ab)) True"
  "bytes_at (header_bytes ab ds @ rest) 24 4 = NumericToRawBytes 4 (sampleRate ab) True"
  "bytes_at (header_bytes ab ds @ rest) 28 4
     = NumericToRawBytes 4 (sampleRate ab * real (numberOfChannels ab) * 2) True"
  "bytes_at (header_bytes ab ds @ rest) 32 2
     = NumericToRawBytes 2 (real (numberOfChannels ab * 2)) True"
  "bytes_at (header_bytes ab ds @ rest) 34 2 = NumericToRawBytes 2 (real (16::nat)) True"
  "bytes_at (header_bytes ab ds @ rest) 36 4 = ascii ''data''"
  "bytes_at (header_bytes ab ds @ rest) 40 4 = NumericToRawBytes 4 (real ds) True"
  by (simp_all add: bytes_at_def header_bytes_def length_NumericToRawBytes lit_def ascii_def)

text \<open>
  C1.  For a decoded buffer whose counts fit the header's fields (block align in 16 bits;
  an integral sample rate, the byte rate and 36 plus the data size in 32 bits),
  \<^verbatim>\<open>encodeWav\<close> returns a binary of 44 bytes plus the data, and the first 44 bytes are the
  canonical RIFF/WAVE header: the tag \<^verbatim>\<open>RIFF\<close>, the total size 36 plus the data size, the
  tag \<^verbatim>\<open>WAVE\<close>, the subchunk \<^verbatim>\<open>fmt \<close> of size 16 with format code 1, the channel
  count, the sample rate, the byte rate (rate times channels times 2), the block align
  (channels times 2) and the bit depth 16, then the tag \<^verbatim>\<open>data\<close> with the size of the
  interleaved samples times 2.  An empty buffer gives exactly 44 bytes and a data size
  of 0.  All multi-byte fields are read little-endian.
\<close>

theorem encodeWav_header:
  assumes channels_fit: "numberOfChannels ab * 2 < 2 ^ 16"
    and integral_rate: "sampleRate ab = real rate"
    and rate_fits: "rate < 2 ^ 32"
    and byte_rate_fits: "rate * numberOfChannels ab * 2 < 2 ^ 32"
    and size_fits: "36 + length_ab ab * numberOfChannels ab * 2 < 2 ^ 32"
  shows "\<exists>out. encodeWav ab = Some out
     \<and> length out = 44 + length_ab ab * numberOfChannels ab * 2
     \<and> bytes_at out 0 4 = ascii ''RIFF''
     \<and> getUint32 out 4 = 36 + length_ab ab * numberOfChannels ab * 2
     \<and> bytes_at out 8 4 = ascii ''WAVE''
     \<and> bytes_at out 12 4 = ascii ''fmt ''
     \<and> getUint32 out 16 = 16
     \<and> getUint16 out 20 = 1
     \<and> getUint16 out 22 = numberOfChannels ab
     \<and> real (getUint32 out 24) = sampleRate ab
     \<and> real (getUint32 out 28) = sampleRate ab * real (numberOfChannels ab) * 2
     \<and> getUint16 out 32 = numberOfChannels ab * 2
     \<and> getUint16 out 34 = 16
     \<and> bytes_at out 36 4 = ascii ''data''
     \<and> getUint32 out 40 = length_ab ab * numberOfChannels ab * 2
     \<and> (length_ab ab = 0 \<longrightarrow> length out = 44 \<and> getUint32 out 40 = 0)"
proof -
  obtain xs where il: "interleaveChannels ab = Some xs"
    and lxs: "length xs = length_ab ab * numberOfChannels ab"
    using interleaveChannels_Some by blast
  define ds where "ds = length_ab ab * numberOfChannels ab * 2"
  define out where "out = header_bytes ab ds @ concat (map sample_bytes xs)"
  have enc: "encodeWav ab = Some out"
    using encodeWav_Some [OF il] by (simp add: out_def ds_def lxs)
  have "length (concat (map sample_bytes xs)) = 2 * length xs"
    by (induction xs) (simp_all add: length_sample_bytes)
  then have len: "length out = 44 + ds"
    by (simp add: out_def length_header_bytes ds_def lxs)
  have f4: "getUint32 out 4 = 36 + ds"
    using size_fits uint_le_of_nat [of "36 + ds" 4]
    by (simp add: getUint32_def out_def bytes_at_header ds_def)
  have f16: "getUint32 out 16 = 16"
    using uint_le_of_nat [of 16 4] by (simp only: getUint32_def out_def bytes_at_header) simp
  have f20: "getUint16 out 20 = 1"
    using uint_le_of_nat [of 1 2] by (simp only: getUint16_def out_def bytes_at_header) simp
  have f22: "getUint16 out 22 = numberOfChannels ab"
    using channels_fit uint_le_of_nat [of "numberOfChannels ab" 2]
    by (simp add: getUint16_def out_def bytes_at_header)
  have f24: "getUint32 out 24 = rate"
    using rate_fits uint_le_of_nat [of rate 4]
    by (simp add: getUint32_def out_def bytes_at_header integral_rate)
  have f28: "getUint32 out 28 = rate * numberOfChannels ab * 2"
    using byte_rate_fits uint_le_of_nat [of "rate * numberOfChannels ab * 2" 4]
    by (simp add: getUint32_def out_def bytes_at_header integral_rate)
  have f32: "getUint16 out 32 = numberOfChannels ab * 2"
    using channels_fit uint_le_of_nat [of "numberOfChannels ab * 2" 2]
    by (simp add: getUint16_def out_def bytes_at_header)
  have f34: "getUint16 out 34 = 16"
    using uint_le_of_nat [of 16 2] by (simp only: getUint16_def out_def bytes_at_header) simp
  have f40: "getUint32 out 40 = ds"
    using size_fits uint_le_of_nat [of ds 4]
    by (simp add: getUint32_def out_def bytes_at_header ds_def)
  have tags: "bytes_at out 0 4 = ascii ''RIFF''" "bytes_at out 8 4 = ascii ''WAVE''"
    "bytes_at out 12 4 = ascii ''fmt ''" "bytes_at out 36 4 = ascii ''data''"
    by (simp_all only: out_def bytes_at_header)
  have empty: "length_ab ab = 0 \<longrightarrow> length out = 44 \<and> getUint32 out 40 = 0"
    using len f40 by (simp add: ds_def)
  show ?thesis
    using enc len f4 f16 f20 f22 f24 f28 f32 f34 f40 tags empty
    by (simp add: ds_def integral_rate)
qed

theorem encodeWav_header_witness:
  "(\<exists>out. encodeWav \<lparr>numberOfChannels = 2, length_ab = 3, sampleRate = 44100,
                           channelSample = (\<lambda>c i. 0)\<rparr> = Some out
      \<and> length out = 56 \<and> getUint32 out 4 = 48 \<and> getUint16 out 22 = 2
      \<and> getUint32 out 24 = 44100 \<and> getUint32 out 28 = 176400
      \<and> getUint16 out 32 = 4 \<and> getUint32 out 40 = 12)
   \<and> (\<exists>out. encodeWav \<lparr>numberOfChannels = 1, length_ab = 0, sampleRate = 48000,
                           channelSample = (\<lambda>c i. 0)\<rparr> = Some out
      \<and> length out = 44 \<and> getUint32 out 4 = 36 \<and> getUint32 out 40 = 0)"
  using encodeWav_header [of "\<lparr>numberOfChannels = 2, length_ab = 3, sampleRate = 44100,
                                channelSample = (\<lambda>c i. 0)\<rparr>" 44100]
    encodeWav_header [of "\<lparr>numberOfChannels = 1, length_ab = 0, sampleRate = 48000,
                           channelSample = (\<lambda>c i. 0)\<rparr>" 48000]
  by auto

subsection \<open>Sample conversion\<close>

lemma sample_bytes_spec: "sample_bytes x = raw_bytes 2 (spec_pcm16 x)"
proof -
  have "max (- 1) (min 1 x) = spec_clamp x"
    by (simp add: spec_clamp_def max_def min_def)
  then show ?thesis
    by (simp add: sample_bytes_def spec_pcm16_def NumericToRawBytes_def Let_def)
qed

lemma spec_pcm16_range: "- 32768 \<le> spec_pcm16 s \<and> spec_pcm16 s \<le> 32767"
proof -
  define c where "c = spec_clamp s"
  have c: "- 1 \<le> c" "c \<le> 1" by (simp_all add: c_def spec_clamp_def)
  show ?thesis
  proof (cases "c < 0")
    case True
    have "0 \<le> - (c * 32768)" "- (c * 32768) \<le> 32768" using True c by simp_all
    then have "0 \<le> \<lfloor>- (c * 32768)\<rfloor> \<and> \<lfloor>- (c * 32768)\<rfloor> \<le> 32768"
      by (simp add: floor_le_iff le_floor_iff)
    moreover have "spec_pcm16 s = - \<lfloor>- (c * 32768)\<rfloor>"
      using True by (simp add: spec_pcm16_def Let_def js_truncate_def c_def)
    ultimately show ?thesis by linarith
  next
    case False
    have "0 \<le> c * 32767" "c * 32767 \<le> 32767" using False c by simp_all
    then have "0 \<le> \<lfloor>c * 32767\<rfloor> \<and> \<lfloor>c * 32767\<rfloor> \<le> 32767"
      by (simp add: floor_le_iff le_floor_iff)
    moreover have "spec_pcm16 s = \<lfloor>c * 32767\<rfloor>"
      using False \<open>0 \<le> c * 32767\<close> by (simp add: spec_pcm16_def Let_def js_truncate_def c_def)
    ultimately show ?thesis by linarith
  qed
qed

lemma spec_pcm16_ends: "spec_pcm16 1 = 32767" "spec_pcm16 (- 1) = - 32768"
  by (simp_all add: spec_pcm16_def spec_clamp_def js_truncate_def)

lemma sint16_raw_bytes:
  assumes "- 32768 \<le> v" and "v \<le> 32767"
  shows "(let u = int (uint_le (raw_bytes 2 v)) in if u < 32768 then u else u - 65536) = v"
proof -
  have u: "int (uint_le (raw_bytes 2 v)) = v mod 65536"
    by (simp add: uint_le_raw_bytes_mod)
  show ?thesis
  proof (cases "0 \<le> v")
    case True
    then have "v mod 65536 = v" using assms by simp
    then show ?thesis using u assms by (simp add: Let_def)
  next
    case False
    then have a: "(v + 65536) mod 65536 = v + 65536"
      using assms by (intro mod_pos_pos_trivial) simp_all
    have b: "(v + 65536) mod 65536 = v mod 65536" by (rule mod_add_self2)
    have "v mod 65536 = v + 65536" using a unfolding b .
    then show ?thesis using u assms False by (simp add: Let_def)
  qed
qed

lemma bytes_at_concat:
  assumes "\<And>x. length (f x) = 2" and "i < length xs"
  shows "take 2 (drop (2 * i) (concat (map f xs) @ rest)) = f (xs ! i)"
  using assms(2)
proof (induction xs arbitrary: i)
  case Nil then show ?case by simp
next
  case (Cons x xs)
  show ?case
  proof (cases i)
    case 0 then show ?thesis using assms(1) [of x] by simp
  next
    case (Suc j)
    then have "j < length xs" using Cons.prems by simp
    from Cons.IH [OF this] show ?thesis using Suc assms(1) [of x] by simp
  qed
qed

text \<open>Every iteration stores its sample where no later iteration touches it.\<close>

lemma floatTo16BitPCM_stores:
  assumes room: "byteOffset + 2 * length samples \<le> length view"
  shows "\<exists>view'. floatTo16BitPCM view byteOffset samples = Some view'
     \<and> length view' = length view
     \<and> (\<forall>i<length samples.
           bytes_at view' (byteOffset + 2 * i) 2 = raw_bytes 2 (spec_pcm16 (samples ! i))
         \<and> getInt16 view' (byteOffset + 2 * i) = spec_pcm16 (samples ! i)
         \<and> - 32768 \<le> spec_pcm16 (samples ! i) \<and> spec_pcm16 (samples ! i) \<le> 32767
         \<and> (samples ! i = 1 \<longrightarrow> getInt16 view' (byteOffset + 2 * i) = 32767)
         \<and> (samples ! i = - 1 \<longrightarrow> getInt16 view' (byteOffset + 2 * i) = - 32768))"
proof -
  define data where "data = concat (map sample_bytes samples)"
  define view' where
    "view' = take byteOffset view @ data @ drop (byteOffset + 2 * length samples) view"
  have ld: "length data = 2 * length samples"
    unfolding data_def by (induction samples) (simp_all add: length_sample_bytes)
  have res: "floatTo16BitPCM view byteOffset samples = Some view'"
    using floatTo16BitPCM_Some [OF room] by (simp add: view'_def data_def)
  have len: "length view' = length view"
    using room ld by (simp add: view'_def)
  have at: "bytes_at view' (byteOffset + 2 * i) 2 = raw_bytes 2 (spec_pcm16 (samples ! i))"
    if "i < length samples" for i
  proof -
    define tail where "tail = data @ drop (byteOffset + 2 * length samples) view"
    have "drop (byteOffset + 2 * i) view' = drop (2 * i) tail"
      using room by (simp add: view'_def flip: tail_def)
    moreover have "take 2 (drop (2 * i) tail) = sample_bytes (samples ! i)"
      unfolding tail_def data_def
      by (rule bytes_at_concat [OF length_sample_bytes that])
    ultimately show ?thesis
      by (simp add: bytes_at_def sample_bytes_spec)
  qed
  have rd: "getInt16 view' (byteOffset + 2 * i) = spec_pcm16 (samples ! i)"
    if "i < length samples" for i
    using at [OF that] spec_pcm16_range [of "samples ! i"]
      sint16_raw_bytes [of "spec_pcm16 (samples ! i)"]
    by (simp add: getInt16_def getUint16_def)
  show ?thesis
    using res len at rd spec_pcm16_range spec_pcm16_ends by auto
qed

subsection \<open>Interleaving\<close>

lemma fold_update_length:
  "length (fold (\<lambda>q a. a[pos q := val q]) ps acc) = length acc"
  by (induction ps arbitrary: acc) simp_all

lemma fold_update_nth:
  assumes "inj_on pos (set ps)" and "p \<in> set ps" and "pos p < length acc"
  shows "fold (\<lambda>q a. a[pos q := val q]) ps acc ! pos p = val p"
  using assms
proof (induction ps rule: rev_induct)
  case Nil
  then show ?case by simp
next
  case (snoc x xs)
  show ?case
  proof (cases "p = x")
    case True
    then show ?thesis using snoc.prems by (simp add: fold_update_length)
  next
    case False
    then have "p \<in> set xs" using snoc.prems by simp
    moreover have "inj_on pos (set xs)" using snoc.prems by (simp add: inj_on_def)
    ultimately have "fold (\<lambda>q a. a[pos q := val q]) xs acc ! pos p = val p"
      using snoc.IH snoc.prems by simp
    moreover have "pos x \<noteq> pos p"
      using snoc.prems False by (auto simp: inj_on_def)
    ultimately show ?thesis by simp
  qed
qed

lemma fold_fold_pairs:
  "fold (\<lambda>i. fold (\<lambda>c. F i c) cs) is acc
     = fold (\<lambda>(i, c). F i c) (concat (map (\<lambda>i. map (Pair i) cs) is)) acc"
proof (induction "is" arbitrary: acc)
  case Nil
  then show ?case by simp
next
  case (Cons i "is")
  have "fold (\<lambda>(i, c). F i c) (map (Pair i) cs) acc = fold (\<lambda>c. F i c) cs acc"
    by (simp add: fold_map o_def)
  then show ?case using Cons by simp
qed

lemma interleave_pos_inj:
  "inj_on (\<lambda>(i, c). i * n + c) (set (concat (map (\<lambda>i. map (Pair i) [0..<n]) is)))"
proof (rule inj_onI)
  fix x y
  assume x: "x \<in> set (concat (map (\<lambda>i. map (Pair i) [0..<n]) is))"
    and y: "y \<in> set (concat (map (\<lambda>i. map (Pair i) [0..<n]) is))"
    and e: "(case x of (i, c) \<Rightarrow> i * n + c) = (case y of (i, c) \<Rightarrow> i * n + c)"
  obtain i c j d where xy: "x = (i, c)" "y = (j, d)" by (cases x, cases y) auto
  have c: "c < n" and d: "d < n" using x y xy by auto
  have eq: "i * n + c = j * n + d" using e xy by simp
  have "(i * n + c) div n = i" "(j * n + d) div n = j" using c d by simp_all
  then have "i = j" using eq by simp
  then show "x = y" using eq xy by simp
qed

lemma interleaveChannels_nth:
  assumes "interleaveChannels ab = Some interleaved"
    and "i < length_ab ab" and "c < numberOfChannels ab"
  shows "interleaved ! (i * numberOfChannels ab + c) = channelSample ab c i"
proof (cases "numberOfChannels ab = 1")
  case True
  then show ?thesis
    using assms
    by (auto simp: interleaveChannels_def Let_def Float32Array_def set_f32_def getChannelData_def)
next
  case False
  define n where "n = numberOfChannels ab"
  define channels where "channels = map (getChannelData ab) [0..<n]"
  define ps where "ps = concat (map (\<lambda>i. map (Pair i) [0..<n]) [0..<length_ab ab])"
  define pos where "pos = (\<lambda>(i :: nat, c :: nat). i * n + c)"
  define val where "val = (\<lambda>(i :: nat, c :: nat). channels ! c ! i)"
  have "interleaved = fold (\<lambda>i. fold (\<lambda>c acc. acc[i * n + c := channels ! c ! i]) [0..<n])
                        [0..<length_ab ab] (Float32Array (length_ab ab * n))"
    using assms(1) False by (simp add: interleaveChannels_def Let_def n_def channels_def)
  also have "\<dots> = fold (\<lambda>(i, c) acc. acc[i * n + c := channels ! c ! i]) ps
                      (Float32Array (length_ab ab * n))"
    unfolding ps_def by (rule fold_fold_pairs)
  also have "\<dots> = fold (\<lambda>q a. a[pos q := val q]) ps (Float32Array (length_ab ab * n))"
    by (simp add: pos_def val_def case_prod_unfold)
  finally have il: "interleaved
      = fold (\<lambda>q a. a[pos q := val q]) ps (Float32Array (length_ab ab * n))" .
  have inj: "inj_on pos (set ps)"
    unfolding pos_def ps_def by (rule interleave_pos_inj)
  have mem: "(i, c) \<in> set ps"
    using assms(2,3) by (force simp: ps_def n_def)
  have "i * n + c < Suc i * n" using assms(3) by (simp add: n_def)
  also have "\<dots> \<le> length_ab ab * n"
    using assms(2) by (intro mult_le_mono1) simp
  finally have rng: "pos (i, c) < length (Float32Array (length_ab ab * n))"
    by (simp add: pos_def Float32Array_def)
  have "interleaved ! pos (i, c) = val (i, c)"
    unfolding il using inj mem rng by (rule fold_update_nth)
  moreover have "channels ! c ! i = channelSample ab c i"
    using assms(2,3) by (simp add: channels_def n_def getChannelData_def)
  ultimately show ?thesis by (simp add: pos_def val_def n_def)
qed

subsection \<open>Samples in the encoded file\<close>

lemma encodeWav_stores:
  "\<exists>out. encodeWav ab = Some out
     \<and> (\<forall>i<length_ab ab. \<forall>c<numberOfChannels ab.
           getInt16 out (44 + 2 * (i * numberOfChannels ab + c))
             = spec_pcm16 (channelSample ab c i))"
proof -
  obtain xs where il: "interleaveChannels ab = Some xs"
    and lxs: "length xs = length_ab ab * numberOfChannels ab"
    using interleaveChannels_Some by blast
  define out where
    "out = header_bytes ab (length xs * (16 div 8)) @ concat (map sample_bytes xs)"
  have enc: "encodeWav ab = Some out"
    using encodeWav_Some [OF il] by (simp add: out_def)
  have rd: "getInt16 out (44 + 2 * (i * numberOfChannels ab + c))
      = spec_pcm16 (channelSample ab c i)"
    if i: "i < length_ab ab" and c: "c < numberOfChannels ab" for i c
  proof -
    define k where "k = i * numberOfChannels ab + c"
    have "k < Suc i * numberOfChannels ab" using c by (simp add: k_def)
    also have "\<dots> \<le> length_ab ab * numberOfChannels ab"
      using i by (intro mult_le_mono1) simp
    finally have k: "k < length xs" by (simp add: lxs)
    have "drop (44 + 2 * k) out = drop (2 * k) (concat (map sample_bytes xs) @ [])"
      by (simp add: out_def length_header_bytes)
    then have "bytes_at out (44 + 2 * k) 2 = sample_bytes (xs ! k)"
      using bytes_at_concat [of sample_bytes k xs "[]", OF length_sample_bytes k]
      by (simp only: bytes_at_def)
    moreover have "xs ! k = channelSample ab c i"
      unfolding k_def using il i c by (rule interleaveChannels_nth)
    ultimately have "bytes_at out (44 + 2 * k) 2 = raw_bytes 2 (spec_pcm16 (channelSample ab c i))"
      by (simp add: sample_bytes_spec)
    then show ?thesis
      using spec_pcm16_range [of "channelSample ab c i"]
        sint16_raw_bytes [of "spec_pcm16 (channelSample ab c i)"]
      by (simp add: getInt16_def getUint16_def k_def)
  qed
  show ?thesis using enc rd by blast
qed

text \<open>
  C2.  For every sample \<open>s\<close> of its input, \<^verbatim>\<open>floatTo16BitPCM\<close> stores at that sample's own
  offset the little-endian two's complement of the integer obtained by clamping \<open>s\<close> to
  \<open>[-1, 1]\<close> and scaling a negative value by 32768, a non-negative one by 32767 (the buffer
  must have room for the samples, as the one \<^verbatim>\<open>encodeWav\<close> allocates has).  In the file that
  \<^verbatim>\<open>encodeWav\<close> returns, frame \<open>i\<close> of channel \<open>c\<close> is so stored at offset
  \<open>44 + 2 * (i * channels + c)\<close>.  The integer lies between -32768 and 32767, so the 16-bit
  store does not wrap: reading the two bytes back as a signed integer returns it.  A
  sample of 1 gives 32767 and a sample of -1 gives -32768.
\<close>

theorem floatTo16BitPCM_samples:
  "(byteOffset + 2 * length samples \<le> length view \<longrightarrow>
      (\<exists>view'. floatTo16BitPCM view byteOffset samples = Some view'
         \<and> length view' = length view
         \<and> (\<forall>i<length samples.
               bytes_at view' (byteOffset + 2 * i) 2 = raw_bytes 2 (spec_pcm16 (samples ! i))
             \<and> getInt16 view' (byteOffset + 2 * i) = spec_pcm16 (samples ! i))))
   \<and> (\<exists>out. encodeWav audioBuffer = Some out
         \<and> (\<forall>i<length_ab audioBuffer. \<forall>c<numberOfChannels audioBuffer.
               getInt16 out (44 + 2 * (i * numberOfChannels audioBuffer + c))
                 = spec_pcm16 (channelSample audioBuffer c i)))
   \<and> - 32768 \<le> spec_pcm16 s \<and> spec_pcm16 s \<le> 32767
   \<and> spec_pcm16 1 = 32767 \<and> spec_pcm16 (- 1) = - 32768"
proof -
  have a: "byteOffset + 2 * length samples \<le> length view \<longrightarrow>
      (\<exists>view'. floatTo16BitPCM view byteOffset samples = Some view'
         \<and> length view' = length view
         \<and> (\<forall>i<length samples.
               bytes_at view' (byteOffset + 2 * i) 2 = raw_bytes 2 (spec_pcm16 (samples ! i))
             \<and> getInt16 view' (byteOffset + 2 * i) = spec_pcm16 (samples ! i)))"
  proof
    assume "byteOffset + 2 * length samples \<le> length view"
    from floatTo16BitPCM_stores [OF this]
    show "\<exists>view'. floatTo16BitPCM view byteOffset samples = Some view'
         \<and> length view' = length view
         \<and> (\<forall>i<length samples.
               bytes_at view' (byteOffset + 2 * i) 2 = raw_bytes 2 (spec_pcm16 (samples ! i))
             \<and> getInt16 view' (byteOffset + 2 * i) = spec_pcm16 (samples ! i))"
      by blast
  qed
  from a encodeWav_stores [of audioBuffer] spec_pcm16_range [of s] spec_pcm16_ends
  show ?thesis by blast
qed

theorem floatTo16BitPCM_samples_witness:
  "(\<exists>view'. floatTo16BitPCM (ArrayBuffer 50) 44 [1, - 1, 1 / 2] = Some view'
      \<and> getInt16 view' 44 = 32767 \<and> getInt16 view' 46 = - 32768 \<and> getInt16 view' 48 = 16383)
   \<and> (\<exists>out. encodeWav \<lparr>numberOfChannels = 2, length_ab = 1, sampleRate = 44100,
                            channelSample = (\<lambda>c i. if c = 0 then 1 else - 1)\<rparr> = Some out
      \<and> getInt16 out 44 = 32767 \<and> getInt16 out 46 = - 32768)"
proof -
  define ab where "ab = \<lparr>numberOfChannels = 2, length_ab = 1, sampleRate = 44100,
                           channelSample = (\<lambda>c i. if c = 0 then 1 else - 1 :: real)\<rparr>"
  note t = floatTo16BitPCM_samples [of 44 "[1, - 1, 1 / 2]" "ArrayBuffer 50" ab 0]
  have room: "44 + 2 * length [1, - 1, 1 / 2 :: real] \<le> length (ArrayBuffer 50)"
    by (simp add: ArrayBuffer_def)
  from t room obtain view' where
    r: "floatTo16BitPCM (ArrayBuffer 50) 44 [1, - 1, 1 / 2] = Some view'"
    and a: "\<forall>i<length [1, - 1, 1 / 2 :: real].
          getInt16 view' (44 + 2 * i) = spec_pcm16 ([1, - 1, 1 / 2] ! i)"
    by blast
  from t obtain out where
    e: "encodeWav ab = Some out"
    and b: "\<forall>i<length_ab ab. \<forall>c<numberOfChannels ab.
          getInt16 out (44 + 2 * (i * numberOfChannels ab + c)) = spec_pcm16 (channelSample ab c i)"
    by blast
  have "getInt16 view' 44 = 32767" using a [rule_format, of 0]
    by (simp add: spec_pcm16_def spec_clamp_def js_truncate_def)
  moreover have "getInt16 view' 46 = - 32768" using a [rule_format, of 1]
    by (simp add: spec_pcm16_def spec_clamp_def js_truncate_def)
  moreover have "getInt16 view' 48 = 16383" using a [rule_format, of 2]
    by (simp add: spec_pcm16_def spec_clamp_def js_truncate_def)
  moreover have "getInt16 out 44 = 32767" using b [rule_format, of 0 0]
    by (simp add: ab_def spec_pcm16_def spec_clamp_def js_truncate_def)
  moreover have "getInt16 out 46 = - 32768" using b [rule_format, of 0 1]
    by (simp add: ab_def spec_pcm16_def spec_clamp_def js_truncate_def)
  ultimately show ?thesis using r e unfolding ab_def by blast
qed

section \<open>Properties of sanitizeName\<close>

lemma replace_outside_single:
  "replace_outside cls str [r] = map (\<lambda>c. if cls c then c else r) str"
  by (induction str) (simp_all add: replace_outside_def)

lemma lit_underscore: "lit ''_'' = [of_char CHR ''_'']"
  by (simp add: lit_def)

lemma sanitizeName_eq:
  "sanitizeName name =
     (if name = [] then lit ''export''
      else take 50 (map (\<lambda>c. if name_char c then c else of_char CHR ''_'') name))"
proof -
  have r: "replace_outside name_char name (lit ''_'')
      = map (\<lambda>c. if name_char c then c else of_char CHR ''_'') name"
    unfolding lit_underscore by (rule replace_outside_single)
  show ?thesis
    unfolding sanitizeName_def substring_def r Let_def by (cases name) simp_all
qed

text \<open>
  The instance given for C6, \<^verbatim>\<open>My Song! #1\<close> becoming \<^verbatim>\<open>My_Song__1\<close>, does not hold: the
  name has three characters outside the class (\<^verbatim>\<open>!\<close>, the second space and \<^verbatim>\<open>#\<close>) between
  \<^verbatim>\<open>Song\<close> and \<^verbatim>\<open>1\<close>, and each of them becomes an underscore.
\<close>

theorem sanitizeName_counterexample:
  "sanitizeName (lit ''My Song! #1'') \<noteq> lit ''My_Song__1''"
  by (simp add: sanitizeName_eq lit_def name_char_def)

text \<open>
  C6 (amended).  For every name, \<^verbatim>\<open>sanitizeName\<close> replaces each code unit outside
  \<^verbatim>\<open>[A-Za-z0-9_-]\<close> by an underscore and keeps the others, cuts the result to 50 code
  units, and returns \<^verbatim>\<open>export\<close> if that is empty, which happens exactly for the empty
  name.  The result has at most 50 code units, all inside the class.  \<^verbatim>\<open>My Song! #1\<close>
  becomes \<^verbatim>\<open>My_Song___1\<close>, the empty name becomes \<^verbatim>\<open>export\<close>, and a name of 80 code units
  is cut to exactly 50.
\<close>

theorem sanitizeName_spec:
  "length (sanitizeName name) \<le> 50
   \<and> (name \<noteq> [] \<longrightarrow> length (sanitizeName name) = min 50 (length name))
   \<and> (\<forall>i < min 50 (length name).
         sanitizeName name ! i = (if name_char (name ! i) then name ! i else of_char CHR ''_''))
   \<and> (\<forall>c \<in> set (sanitizeName name). name_char c)
   \<and> (name = [] \<longrightarrow> sanitizeName name = lit ''export'')
   \<and> sanitizeName (lit ''My Song! #1'') = lit ''My_Song___1''
   \<and> sanitizeName (lit '''') = lit ''export''
   \<and> (length name = 80 \<longrightarrow> length (sanitizeName name) = 50)"
proof -
  have ex: "\<forall>c \<in> set (lit ''export''). name_char c"
    by (simp add: lit_def name_char_def)
  have us: "name_char (of_char CHR ''_'')"
    by (simp add: name_char_def)
  have cls: "\<forall>c \<in> set (sanitizeName name). name_char c"
  proof (cases "name = []")
    case True then show ?thesis using ex by (simp add: sanitizeName_eq)
  next
    case False
    define mapped where
      "mapped = map (\<lambda>c. if name_char c then c else of_char CHR ''_'') name"
    have m: "\<forall>c \<in> set mapped. name_char c"
      unfolding mapped_def using us by auto
    have "sanitizeName name = take 50 mapped"
      unfolding mapped_def using False by (simp only: sanitizeName_eq if_False)
    then show ?thesis
      using m by (auto dest: in_set_takeD)
  qed
  have e1: "sanitizeName (lit ''My Song! #1'') = lit ''My_Song___1''"
    by (simp add: sanitizeName_eq lit_def name_char_def)
  have e2: "sanitizeName (lit '''') = lit ''export''"
    by (simp add: sanitizeName_eq lit_def)
  have len: "length (sanitizeName name) \<le> 50"
    by (simp add: sanitizeName_eq lit_def)
  have len2: "name \<noteq> [] \<longrightarrow> length (sanitizeName name) = min 50 (length name)"
    by (simp add: sanitizeName_eq min.commute)
  have nth: "\<forall>i < min 50 (length name).
      sanitizeName name ! i = (if name_char (name ! i) then name ! i else of_char CHR ''_'')"
  proof (intro allI impI)
    fix i assume i: "i < min 50 (length name)"
    then have "name \<noteq> []" by auto
    then have "sanitizeName name ! i
        = take 50 (map (\<lambda>c. if name_char c then c else of_char CHR ''_'') name) ! i"
      by (simp only: sanitizeName_eq if_False)
    also have "\<dots> = map (\<lambda>c. if name_char c then c else of_char CHR ''_'') name ! i"
      using i by (intro nth_take) simp
    also have "\<dots> = (if name_char (name ! i) then name ! i else of_char CHR ''_'')"
      using i by (intro nth_map) simp
    finally show "sanitizeName name ! i
        = (if name_char (name ! i) then name ! i else of_char CHR ''_'')" .
  qed
  have e3: "name = [] \<longrightarrow> sanitizeName name = lit ''export''"
    by (simp add: sanitizeName_eq)
  have l80: "length name = 80 \<longrightarrow> length (sanitizeName name) = 50"
    using len2 by auto
  from len len2 nth cls e3 e1 e2 l80 show ?thesis by blast
qed

theorem sanitizeName_spec_witness:
  "length (sanitizeName (replicate 80 (of_char CHR ''!''))) = 50
   \<and> sanitizeName (replicate 80 (of_char CHR ''!'')) ! 49 = of_char CHR ''_''
   \<and> sanitizeName [] = lit ''export''"
proof -
  have "\<not> name_char (of_char CHR ''!'')" by (simp add: name_char_def)
  then show ?thesis
    using sanitizeName_spec [of "replicate 80 (of_char CHR ''!'')"] sanitizeName_spec [of "[]"]
    by simp
qed

section \<open>Properties of double-precision rounding\<close>

lemma rne_bounds: "\<lfloor>y\<rfloor> \<le> rne y \<and> rne y \<le> \<lfloor>y\<rfloor> + 1"
  by (simp add: rne_def Let_def)

lemma rne_of_int [simp]: "rne (real_of_int n) = n"
  by (simp add: rne_def)

lemma rne_mono: "x \<le> y \<Longrightarrow> rne x \<le> rne y"
proof -
  assume xy: "x \<le> y"
  then have f: "\<lfloor>x\<rfloor> \<le> \<lfloor>y\<rfloor>" by (rule floor_mono)
  show ?thesis
  proof (cases "\<lfloor>x\<rfloor> = \<lfloor>y\<rfloor>")
    case True
    then have "x - real_of_int \<lfloor>x\<rfloor> \<le> y - real_of_int \<lfloor>y\<rfloor>" using xy by simp
    then show ?thesis using True by (auto simp: rne_def Let_def)
  next
    case False
    then have "\<lfloor>x\<rfloor> + 1 \<le> \<lfloor>y\<rfloor>" using f by simp
    then show ?thesis using rne_bounds [of x] rne_bounds [of y] by linarith
  qed
qed


lemma powr_powi: "2 powr real_of_int k = (2::real) powi k"
  by (simp add: powr_real_of_int')

lemma binade_bounds:
  assumes "x \<noteq> 0"
  shows "2 powi binade x \<le> \<bar>x\<bar>" and "\<bar>x\<bar> < 2 powi (binade x + 1)"
proof -
  have pos: "0 < \<bar>x\<bar>" using assms by simp
  have "real_of_int (binade x) \<le> log 2 \<bar>x\<bar>" by (simp add: binade_def)
  then have "2 powr real_of_int (binade x) \<le> \<bar>x\<bar>"
    using pos by (simp add: le_log_iff)
  then show "2 powi binade x \<le> \<bar>x\<bar>" by (simp only: powr_powi)
  have "log 2 \<bar>x\<bar> < real_of_int (binade x + 1)" by (simp add: binade_def)
  then have "\<bar>x\<bar> < 2 powr real_of_int (binade x + 1)"
    using pos by (simp add: log_less_iff)
  then show "\<bar>x\<bar> < 2 powi (binade x + 1)" by (simp only: powr_powi)
qed




lemma fl_zero [simp]: "fl 0 = 0"
  by (simp add: fl_def)


lemma fl_bounds:
  assumes "0 < x"
  shows "2 powi binade x \<le> fl x" and "fl x \<le> 2 powi (binade x + 1)"
proof -
  define k where "k = binade x"
  define u :: real where "u = 2 powi (k - 52)"
  have u: "0 < u" by (simp add: u_def)
  have lo: "2 powi k = 2 ^ 52 * u" and hi: "2 powi (k + 1) = 2 ^ 53 * u"
    by (simp_all add: u_def power_int_diff power_int_add)
  have x: "2 ^ 52 * u \<le> x" "x < 2 ^ 53 * u"
    using binade_bounds [of x] assms by (simp_all add: k_def [symmetric] lo hi)
  have q: "real_of_int (2 ^ 52) \<le> x / u" "x / u \<le> real_of_int (2 ^ 53)"
    using x u by (simp_all add: field_simps)
  have "rne (real_of_int (2 ^ 52)) \<le> rne (x / u)"
    using q(1) by (rule rne_mono)
  moreover have "rne (x / u) \<le> rne (real_of_int (2 ^ 53))"
    using q(2) by (rule rne_mono)
  ultimately have r: "2 ^ 52 \<le> rne (x / u)" "rne (x / u) \<le> 2 ^ 53"
    by (simp_all only: rne_of_int)
  have f: "fl x = real_of_int (rne (x / u)) * u"
    using assms by (simp add: fl_def Let_def u_def k_def)
  have "real_of_int (2 ^ 52) \<le> real_of_int (rne (x / u))"
    using r(1) by (simp only: of_int_le_iff)
  then have "real_of_int (2 ^ 52) * u \<le> real_of_int (rne (x / u)) * u"
    using u by (intro mult_right_mono) simp_all
  then have "2 powi k \<le> fl x" by (simp add: f lo)
  then show "2 powi binade x \<le> fl x" by (simp only: k_def)
  have "real_of_int (rne (x / u)) \<le> real_of_int (2 ^ 53)"
    using r(2) by (simp only: of_int_le_iff)
  then have "real_of_int (rne (x / u)) * u \<le> real_of_int (2 ^ 53) * u"
    using u by (intro mult_right_mono) simp_all
  then have "fl x \<le> 2 powi (k + 1)" by (simp add: f hi)
  then show "fl x \<le> 2 powi (binade x + 1)" by (simp only: k_def)
qed

lemma fl_pos: "0 < x \<Longrightarrow> 0 < fl x"
proof -
  assume "0 < x"
  from fl_bounds(1) [OF this] have "2 powi binade x \<le> fl x" .
  moreover have "0 < (2::real) powi binade x" by simp
  ultimately show ?thesis by linarith
qed




lemma fl_exact:
  assumes "\<bar>m\<bar> < 2 ^ 53"
  shows "fl (real_of_int m * 2 powi e) = real_of_int m * 2 powi e"
proof (cases "m = 0")
  case True then show ?thesis by simp
next
  case False
  define x where "x = real_of_int m * 2 powi e"
  define k where "k = binade x"
  have x0: "x \<noteq> 0" using False by (simp add: x_def)
  have "\<bar>x\<bar> = real_of_int \<bar>m\<bar> * 2 powi e" by (simp add: x_def abs_mult)
  also have "\<dots> < real_of_int (2 ^ 53) * 2 powi e"
    using assms by (intro mult_strict_right_mono) (simp_all del: of_int_power of_int_numeral)
  also have "\<dots> = 2 powi (e + 53)" by (simp add: power_int_add)
  finally have "\<bar>x\<bar> < 2 powi (e + 53)" .
  moreover have "2 powi k \<le> \<bar>x\<bar>" using binade_bounds(1) [OF x0] by (simp add: k_def)
  ultimately have "(2::real) powi k < 2 powi (e + 53)" by linarith
  then have "k < e + 53"
    by (metis linorder_not_le power_int_increasing one_le_numeral)
  then have n: "0 \<le> e - (k - 52)" by simp
  define j where "j = nat (e - (k - 52))"
  have "x / 2 powi (k - 52) = real_of_int m * 2 powi (e - (k - 52))"
    by (simp add: x_def power_int_diff)
  also have "2 powi (e - (k - 52)) = (2::real) ^ j"
    using n by (simp add: j_def power_int_def)
  finally have q: "x / 2 powi (k - 52) = real_of_int (m * 2 ^ j)" by simp
  have "fl x = real_of_int (rne (x / 2 powi (k - 52))) * 2 powi (k - 52)"
    using x0 by (simp add: fl_def Let_def k_def)
  also have "\<dots> = x / 2 powi (k - 52) * 2 powi (k - 52)"
    unfolding q by (simp only: rne_of_int)
  also have "\<dots> = x" by simp
  finally show ?thesis by (simp add: x_def)
qed

lemma fl_of_int: "\<bar>m\<bar> < 2 ^ 53 \<Longrightarrow> fl (real_of_int m) = real_of_int m"
  using fl_exact [of m 0] by simp

lemma fl_of_nat: "n < 2 ^ 53 \<Longrightarrow> fl (real n) = real n"
  using fl_of_int [of "int n"] by simp

lemma fl_numeral: "numeral n < (2::nat) ^ 53 \<Longrightarrow> fl (numeral n) = numeral n"
  using fl_of_nat [of "numeral n"] by simp

lemma fl_one: "fl 1 = 1"
  using fl_of_nat [of 1] by simp

lemma fl_half: "fl (1 / 2) = 1 / 2"
  using fl_exact [of 1 "- 1"] by (simp add: power_int_minus)

lemma fl_quarter: "fl (1 / 4) = 1 / 4"
  using fl_exact [of 1 "- 2"] by (simp add: power_int_minus)

lemmas fl_values = fl_zero fl_one fl_half fl_quarter fl_numeral

section \<open>Timing computed by export\<close>

lemma effective_cps_nonzero: "effective_cps scheduler \<noteq> 0"
  by (simp add: effective_cps_def split: option.splits)

lemma waited_export:
  "mediaStreamDest this \<noteq> None \<Longrightarrow>
   waited (export env this settings scheduler) = Some (max 0 (fl (waitTime scheduler * 1000)))"
  by (simp add: export_def Let_def split: prod.splits bool.splits option.splits)











section \<open>Properties of the patched connect\<close>

text \<open>
  Whatever the original \<^verbatim>\<open>connect\<close> is, the wrapper returns (or throws) what the original
  does when it is called with three arguments, and while recording is not active that
  call is all the wrapper does.
\<close>

lemma patched_connect_result:
  "fst (patched_connect tap originalConnect world this dest args)
     = fst (originalConnect (fst world) this dest [parameter args 0, parameter args 1])"
  by (simp add: patched_connect_def Let_def
      split: prod.splits sum.splits option.splits bool.splits)

lemma patched_connect_inactive:
  "\<not> isRecordingActive tap \<Longrightarrow>
   patched_connect tap originalConnect world this dest args
     = (fst (originalConnect (fst world) this dest [parameter args 0, parameter args 1]),
        (snd (originalConnect (fst world) this dest [parameter args 0, parameter args 1]),
         snd world))"
  by (simp add: patched_connect_def Let_def
      split: prod.splits sum.splits option.splits bool.splits)

text \<open>
  For a destination that is a node the platform's \<^verbatim>\<open>connect\<close> does the same with the three
  arguments as with the arguments of the caller, so there the wrapper is transparent
  while recording is not active.
\<close>

lemma platform_connect_node:
  "platform_connect graph this (Node n) [parameter args 0, parameter args 1]
     = platform_connect graph this (Node n) args"
  by (simp add: platform_connect_def index_argument_def parameter_def)

lemma patched_connect_inactive_node:
  "\<not> isRecordingActive tap \<Longrightarrow>
   patched_connect tap platform_connect (graph, out) this (Node n) args
     = (fst (platform_connect graph this (Node n) args),
        (snd (platform_connect graph this (Node n) args), out))"
  using platform_connect_node [of graph this n args]
  by (simp add: patched_connect_inactive)

text \<open>While recording is active a connection to the context's output is mirrored.\<close>

lemma patched_connect_active_example:
  "patched_connect
     \<lparr>recordingDestination = Some 9, isRecordingActive = True,
      audioContextRef = Some \<lparr>destination = 1\<rparr>\<rparr>
     platform_connect ({}, []) 5 (Node 1) []
   = (Inr (Some 1), ({(5, Node 1, 0, 0), (5, Node 9, 0, 0)},
                     [ConnectCalled 5 (Node 1) True True, RoutingToRecording]))"
  by (auto simp: patched_connect_def platform_connect_def index_argument_def parameter_def)

text \<open>
  C8.  The wrapper is meant to leave every call as it was while recording is not active,
  and it does not: it passes three arguments to the original whatever the caller passed.
  A call that connects a node to an audio parameter, with or without an output index,
  succeeds on the platform's \<^verbatim>\<open>connect\<close> and makes the connection; the same call on the
  patched \<^verbatim>\<open>connect\<close> throws a \<^verbatim>\<open>TypeError\<close> and leaves the graph as it was, whether or not
  recording is active.
\<close>

theorem patched_connect_param_throws:
  "platform_connect graph this (Param p) [] = (Inr None, insert (this, Param p, 0, 0) graph)
   \<and> platform_connect graph this (Param p) [Some k]
       = (Inr None, insert (this, Param p, k, 0) graph)
   \<and> patched_connect tap platform_connect (graph, out) this (Param p) args
       = (Inl TypeError, (graph, out))"
  by (simp add: patched_connect_def platform_connect_def index_argument_def parameter_def)

section \<open>Properties of export\<close>

subsection \<open>The recording promise\<close>

lemma recordingLoop_resolves:
  "fst (recordingLoop settings d t0 es (this, reports))
     \<longleftrightarrow> (\<exists>t \<in> set (frame_times es). d \<le> real_of_int (t - t0))"
  by (induction settings d t0 es "(this, reports)" arbitrary: this reports
      rule: recordingLoop.induct) (auto simp: Let_def)

lemma recordingLoop_reports:
  "\<exists>n. snd (snd (recordingLoop settings d t0 es (this, reports)))
         = reports @ map (checkProgress settings d t0) (take n (frame_times es))"
proof (induction settings d t0 es "(this, reports)" arbitrary: this reports
    rule: recordingLoop.induct)
  case (1 settings d t0 this reports)
  show ?case by simp
next
  case (2 settings d t0 t es this reports)
  show ?case
  proof (cases "d \<le> real_of_int (t - t0)")
    case True
    then have "snd (snd (recordingLoop settings d t0 (AnimationFrame t # es) (this, reports)))
        = reports @ map (checkProgress settings d t0) (take 1 (frame_times (AnimationFrame t # es)))"
      by (simp add: Let_def)
    then show ?thesis by blast
  next
    case False
    from 2 [OF refl False] obtain n where
      "snd (snd (recordingLoop settings d t0 es
                   (this, reports @ [checkProgress settings d t0 t])))
        = (reports @ [checkProgress settings d t0 t])
          @ map (checkProgress settings d t0) (take n (frame_times es))"
      by blast
    then have "snd (snd (recordingLoop settings d t0 (AnimationFrame t # es) (this, reports)))
        = reports @ map (checkProgress settings d t0)
                      (take (Suc n) (frame_times (AnimationFrame t # es)))"
      using False by (simp add: Let_def)
    then show ?thesis by blast
  qed
next
  case (3 settings d t0 b es this reports)
  then show ?case by simp
next
  case (4 settings d t0 es this reports)
  then show ?case by simp
next
  case (5 settings d t0 es this reports)
  then show ?case by simp
qed

lemma recordingLoop_no_data:
  "\<forall>b. DataAvailable b \<in> set es \<longrightarrow> b = [] \<Longrightarrow>
   chunks (fst (snd (recordingLoop settings d t0 es (this, reports)))) = chunks this"
  by (induction settings d t0 es "(this, reports)" arbitrary: this reports
      rule: recordingLoop.induct) (auto simp: Let_def ondataavailable_def onerror_def)






subsection \<open>The shape of a run\<close>

lemma encodeWav_total: "\<exists>out. encodeWav ab = Some out"
  using interleaveChannels_Some [of ab] encodeWav_Some by blast

lemma phase_checkProgress [simp]: "phase (checkProgress settings d t0 t) = recording"
  by (simp add: checkProgress_def Let_def)


text \<open>The shape of every run that gets past the check of the recording destination.\<close>

lemma export_run:
  fixes env :: Env and this :: ExportManager and settings :: ExportSettings
    and scheduler :: StrudelScheduler
  assumes dest: "mediaStreamDest this \<noteq> None"
  defines "d \<equiv> fl (totalDuration settings scheduler * 1000)"
  defines "started \<equiv> this\<lparr>chunks := [], recorder := Some state_recording\<rparr>"
  defines "head \<equiv> [\<lparr>phase = preparing, progress = 0, currentCycle = None, totalCycles = None\<rparr>,
                     \<lparr>phase = recording, progress = 0, currentCycle = Some 0,
                      totalCycles = Some (cycles settings)\<rparr>]"
  defines "enc50 \<equiv> \<lparr>phase = encoding, progress = 50, currentCycle = None, totalCycles = None\<rparr>"
  defines "enc80 \<equiv> \<lparr>phase = encoding, progress = 80, currentCycle = None, totalCycles = None\<rparr>"
  defines "done \<equiv> \<lparr>phase = complete, progress = 100, currentCycle = None, totalCycles = None\<rparr>"
  defines "loop \<equiv> recordingLoop settings d (startTime env)
                     (AnimationFrame (firstCheck env) # events env) (started, head)"
  defines "run \<equiv> export env this settings scheduler"
  shows "(\<not> fst loop \<longrightarrow> outcome run = Pending \<and> reported run = snd (snd loop)
            \<and> manager run = fst (snd loop))
       \<and> (fst loop \<longrightarrow> manager run = snd (stopRecording env (fst (snd loop)))
            \<and> (case fst (stopRecording env (fst (snd loop))) of
                  None \<Rightarrow> outcome run = Rejected NoAudioRecorded
                           \<and> reported run = snd (snd loop) @ [enc50]
                | Some buffer \<Rightarrow>
                    (\<not> zipFolder env (sanitizeName (sessionName settings))
                       \<longrightarrow> outcome run = Rejected ZipFolderFailed
                           \<and> reported run = snd (snd loop) @ [enc50, enc80])
                  \<and> (zipFolder env (sanitizeName (sessionName settings))
                       \<longrightarrow> is_Resolved (outcome run)
                           \<and> reported run = snd (snd loop) @ [enc50, enc80, done])))"
proof -
  obtain res this' reports where l: "loop = (res, this', reports)"
    by (cases loop) auto
  obtain buffer this'' where s: "stopRecording env this' = (buffer, this'')"
    by (cases "stopRecording env this'") auto
  have l': "recordingLoop settings (fl (totalDuration settings scheduler * 1000)) (startTime env)
              (AnimationFrame (firstCheck env) # events env)
              (this\<lparr>chunks := [], recorder := Some state_recording\<rparr>,
               [\<lparr>phase = preparing, progress = 0, currentCycle = None, totalCycles = None\<rparr>,
                \<lparr>phase = recording, progress = 0, currentCycle = Some 0,
                 totalCycles = Some (cycles settings)\<rparr>]) = (res, this', reports)"
    using l by (simp only: loop_def d_def started_def head_def)
  show ?thesis
  proof (cases res)
    case False
    then show ?thesis
      using dest l l' by (simp add: run_def export_def Let_def del: recordingLoop.simps)
  next
    case True
    show ?thesis
    proof (cases buffer)
      case None
      then show ?thesis
        using dest l l' s True
        by (simp add: run_def export_def Let_def enc50_def del: recordingLoop.simps)
    next
      case (Some ab)
      obtain out where "encodeWav ab = Some out" using encodeWav_total by blast
      then show ?thesis
        using dest l l' s True Some
        by (simp add: run_def export_def Let_def enc50_def enc80_def done_def
            del: recordingLoop.simps)
    qed
  qed
qed

subsection \<open>The default tempo\<close>

lemma export_resolves:
  assumes "mediaStreamDest this \<noteq> None"
  shows "outcome (export env this settings scheduler) \<noteq> Pending
     \<longleftrightarrow> recording_ends env settings scheduler"
proof -
  define loop where "loop = recordingLoop settings (fl (totalDuration settings scheduler * 1000))
      (startTime env) (AnimationFrame (firstCheck env) # events env)
      (this\<lparr>chunks := [], recorder := Some state_recording\<rparr>,
       [\<lparr>phase = preparing, progress = 0, currentCycle = None, totalCycles = None\<rparr>,
        \<lparr>phase = recording, progress = 0, currentCycle = Some 0,
         totalCycles = Some (cycles settings)\<rparr>])"
  note shape = export_run [OF assms, of settings scheduler env, folded loop_def]
  have r: "fst loop \<longleftrightarrow> recording_ends env settings scheduler"
    unfolding loop_def recordingLoop_resolves by (simp add: recording_ends_def)
  show ?thesis
  proof (cases "fst loop")
    case False
    then show ?thesis using shape r by simp
  next
    case True
    then have "outcome (export env this settings scheduler) \<noteq> Pending"
      using shape
      by (cases "fst (stopRecording env (fst (snd loop)))";
          cases "zipFolder env (sanitizeName (sessionName settings))") auto
    then show ?thesis using True r by simp
  qed
qed

lemma cycleDuration_default:
  "cps scheduler = None \<or> cps scheduler = Some 0 \<Longrightarrow> cycleDuration scheduler = 2"
  by (auto simp: cycleDuration_def effective_cps_def fl_numeral)

lemma fl_cycles_2:
  assumes "n < 2 ^ 42"
  shows "fl (real n * 2) = 2 * real n" and "fl (2 * real n * 1000) = 2000 * real n"
proof -
  have a: "2 * n < 2 ^ 53" and b: "2000 * n < 2 ^ 53" using assms by simp_all
  have "fl (real (2 * n)) = real (2 * n)" using a by (rule fl_of_nat)
  then show "fl (real n * 2) = 2 * real n" by (simp add: mult.commute)
  have "fl (real (2000 * n)) = real (2000 * n)" using b by (rule fl_of_nat)
  then show "fl (2 * real n * 1000) = 2000 * real n" by (simp add: mult.commute)
qed

text \<open>
  C10.  When the scheduler's \<open>cps\<close> is 0 or is no number, a call of \<^verbatim>\<open>export\<close> is the call with
  half a cycle per second in its place: same outcome, reports, wait and manager.  The
  cycle period it computes is 2 seconds; the target duration is positive from one cycle
  on, and it is twice the number of cycles (for fewer than \<open>2\<^sup>4\<^sup>2\<close> cycles, where the
  products are exact).  With the recording destination set, the wait before the recording
  is computed with the period 2, and the recording ends, and the call with it, exactly
  when a progress check sees 2000 milliseconds per cycle elapsed.
\<close>

theorem export_default_cps:
  assumes "cps scheduler = None \<or> cps scheduler = Some 0"
  shows "export env this settings scheduler
           = export env this settings (scheduler\<lparr>cps := Some (1 / 2)\<rparr>)
     \<and> cycleDuration scheduler = 2
     \<and> (1 \<le> cycles settings \<longrightarrow> 0 < totalDuration settings scheduler)
     \<and> (cycles settings < 2 ^ 42 \<longrightarrow>
          totalDuration settings scheduler = 2 * real (cycles settings))
     \<and> (mediaStreamDest this \<noteq> None \<longrightarrow>
          waited (export env this settings scheduler)
            = Some (max 0 (fl (fl (fl (real_of_int \<lceil>now scheduler\<rceil> - now scheduler) * 2) * 1000))))
     \<and> (mediaStreamDest this \<noteq> None \<and> cycles settings < 2 ^ 42 \<longrightarrow>
          (outcome (export env this settings scheduler) \<noteq> Pending
             \<longleftrightarrow> (\<exists>t \<in> set (firstCheck env # frame_times (events env)).
                    2000 * real (cycles settings) \<le> real_of_int (t - startTime env))))"
proof -
  have cd: "cycleDuration scheduler = 2"
    using assms by (rule cycleDuration_default)
  have cd': "cycleDuration (scheduler\<lparr>cps := Some (1 / 2)\<rparr>) = 2"
    by (simp add: cycleDuration_def effective_cps_def fl_numeral)
  have "waitTime (scheduler\<lparr>cps := Some (1 / 2)\<rparr>) = waitTime scheduler"
    by (simp add: waitTime_def cd cd')
  moreover have "totalDuration settings (scheduler\<lparr>cps := Some (1 / 2)\<rparr>)
      = totalDuration settings scheduler"
    by (simp add: totalDuration_def cd cd')
  ultimately have e: "export env this settings scheduler
           = export env this settings (scheduler\<lparr>cps := Some (1 / 2)\<rparr>)"
    by (simp only: export_def)
  have p: "1 \<le> cycles settings \<longrightarrow> 0 < totalDuration settings scheduler"
    unfolding totalDuration_def cd by (auto intro: fl_pos)
  have t: "cycles settings < 2 ^ 42 \<longrightarrow>
          totalDuration settings scheduler = 2 * real (cycles settings)"
    unfolding totalDuration_def cd using fl_cycles_2(1) by blast
  have w: "mediaStreamDest this \<noteq> None \<longrightarrow>
          waited (export env this settings scheduler)
            = Some (max 0 (fl (fl (fl (real_of_int \<lceil>now scheduler\<rceil> - now scheduler) * 2) * 1000)))"
    by (simp add: waited_export waitTime_def Let_def cd)
  have r: "mediaStreamDest this \<noteq> None \<and> cycles settings < 2 ^ 42 \<longrightarrow>
          (outcome (export env this settings scheduler) \<noteq> Pending
             \<longleftrightarrow> (\<exists>t \<in> set (firstCheck env # frame_times (events env)).
                    2000 * real (cycles settings) \<le> real_of_int (t - startTime env)))"
  proof
    assume a: "mediaStreamDest this \<noteq> None \<and> cycles settings < 2 ^ 42"
    then have "fl (totalDuration settings scheduler * 1000) = 2000 * real (cycles settings)"
      using t fl_cycles_2(2) [of "cycles settings"] by simp
    then have "recording_ends env settings scheduler
        \<longleftrightarrow> (\<exists>t \<in> set (firstCheck env # frame_times (events env)).
               2000 * real (cycles settings) \<le> real_of_int (t - startTime env))"
      by (simp only: recording_ends_def)
    then show "outcome (export env this settings scheduler) \<noteq> Pending
             \<longleftrightarrow> (\<exists>t \<in> set (firstCheck env # frame_times (events env)).
                    2000 * real (cycles settings) \<le> real_of_int (t - startTime env))"
      using export_resolves [of this env settings scheduler] a by blast
  qed
  from e cd p t w r show ?thesis by (intro conjI)
qed

theorem export_default_cps_witness:
  "cycleDuration \<lparr>cps = Some 0, now = 0\<rparr> = 2
   \<and> totalDuration \<lparr>cycles = 4, sessionName = lit ''demo''\<rparr> \<lparr>cps = Some 0, now = 0\<rparr> = 8
   \<and> outcome (export (ex_env [AnimationFrame 7999] [] (\<lambda>b. Inl EncodingError)) ex_this
                 \<lparr>cycles = 4, sessionName = lit ''demo''\<rparr> \<lparr>cps = Some 0, now = 0\<rparr>) = Pending
   \<and> outcome (export (ex_env [AnimationFrame 8000] [] (\<lambda>b. Inl EncodingError)) ex_this
                 \<lparr>cycles = 4, sessionName = lit ''demo''\<rparr> \<lparr>cps = Some 0, now = 0\<rparr>) \<noteq> Pending"
proof -
  define S where "S = \<lparr>cps = Some 0, now = 0\<rparr>"
  define St where "St = \<lparr>cycles = 4, sessionName = lit ''demo''\<rparr>"
  define E1 where "E1 = ex_env [AnimationFrame 7999] [] (\<lambda>b. Inl EncodingError)"
  define E2 where "E2 = ex_env [AnimationFrame 8000] [] (\<lambda>b. Inl EncodingError)"
  have a: "cps S = None \<or> cps S = Some 0" by (simp add: S_def)
  have d: "mediaStreamDest ex_this \<noteq> None \<and> cycles St < 2 ^ 42"
    by (simp add: ex_this_def St_def)
  have f1: "\<not> (\<exists>t \<in> set (firstCheck E1 # frame_times (events E1)).
                 2000 * real (cycles St) \<le> real_of_int (t - startTime E1))"
    by (simp add: E1_def St_def ex_env_def)
  have f2: "\<exists>t \<in> set (firstCheck E2 # frame_times (events E2)).
                 2000 * real (cycles St) \<le> real_of_int (t - startTime E2)"
    by (simp add: E2_def St_def ex_env_def)
  from export_default_cps [OF a, of E1 ex_this St] d f1
  have "cycleDuration S = 2" and "totalDuration St S = 2 * real (cycles St)"
    and "outcome (export E1 ex_this St S) = Pending"
    by blast+
  moreover from export_default_cps [OF a, of E2 ex_this St] d f2
  have "outcome (export E2 ex_this St S) \<noteq> Pending"
    by blast
  moreover have "2 * real (cycles St) = 8" by (simp add: St_def)
  ultimately show ?thesis
    by (simp only: S_def St_def E1_def E2_def) simp
qed

subsection \<open>Recorder errors\<close>

lemmas ex_defs = ex_this_def ex_settings_def ex_scheduler_def ex_env_def

lemmas export_defs = export_def Let_def totalDuration_def cycleDuration_def effective_cps_def
  waitTime_def checkProgress_def stopRecording_def blobToAudioBuffer_def ondataavailable_def
  onerror_def






subsection \<open>Empty capture\<close>

lemma stopRecording_empty:
  assumes "chunks this = []" and "\<forall>b \<in> set (flushed env). b = []"
  shows "fst (stopRecording env this) = None"
proof -
  have "chunks (fold ondataavailable bs m) = chunks m" if "\<forall>b \<in> set bs. b = []" for bs m
    using that by (induction bs arbitrary: m) (simp_all add: ondataavailable_def)
  then show ?thesis
    using assms by (simp add: stopRecording_def Let_def)
qed

text \<open>
  C4 does not hold as stated.  With no \<^verbatim>\<open>dataavailable\<close> event at all the call rejects,
  but the last snapshot it reports is in the encoding phase: \<^verbatim>\<open>export\<close> reports
  \<^verbatim>\<open>encoding\<close> at 50 before it looks at the result of \<^verbatim>\<open>stopRecording\<close>.
\<close>

theorem export_empty_capture_counterexample:
  "outcome (export (ex_env [AnimationFrame 500, AnimationFrame 1000] [] (\<lambda>b. Inr ex_silence))
              ex_this ex_settings ex_scheduler) = Rejected NoAudioRecorded
   \<and> map phase (reported (export (ex_env [AnimationFrame 500, AnimationFrame 1000] []
                                     (\<lambda>b. Inr ex_silence))
                             ex_this ex_settings ex_scheduler))
       = [preparing, recording, recording, recording, recording, encoding]"
  by (simp add: ex_defs export_defs fl_values)

text \<open>
  C4 (amended).  If the recording destination is set, the recording promise is resolved
  and no \<^verbatim>\<open>dataavailable\<close> event carries data (during the recording or at the final
  flush), then \<^verbatim>\<open>export\<close> rejects with the error \<^verbatim>\<open>No audio recorded\<close>.  The only
  snapshot of the encoding phase is the one at 50, it is the last snapshot, and no
  \<^verbatim>\<open>complete\<close> snapshot is reported.
\<close>

theorem export_empty_capture:
  assumes dest: "mediaStreamDest this \<noteq> None"
    and ends: "recording_ends env settings scheduler"
    and no_data: "\<forall>b. DataAvailable b \<in> set (events env) \<longrightarrow> b = []"
    and no_flush: "\<forall>b \<in> set (flushed env). b = []"
  shows "outcome (export env this settings scheduler) = Rejected NoAudioRecorded
     \<and> filter (\<lambda>p. phase p = encoding) (reported (export env this settings scheduler))
         = [\<lparr>phase = encoding, progress = 50, currentCycle = None, totalCycles = None\<rparr>]
     \<and> last (reported (export env this settings scheduler))
         = \<lparr>phase = encoding, progress = 50, currentCycle = None, totalCycles = None\<rparr>
     \<and> (\<forall>p \<in> set (reported (export env this settings scheduler)). phase p \<noteq> complete)"
proof -
  define d where "d = fl (totalDuration settings scheduler * 1000)"
  define started where "started = this\<lparr>chunks := [], recorder := Some state_recording\<rparr>"
  define head where
    "head = [\<lparr>phase = preparing, progress = 0, currentCycle = None, totalCycles = None\<rparr>,
             \<lparr>phase = recording, progress = 0, currentCycle = Some 0,
              totalCycles = Some (cycles settings)\<rparr>]"
  define loop where "loop = recordingLoop settings d (startTime env)
                     (AnimationFrame (firstCheck env) # events env) (started, head)"
  define enc50 where
    "enc50 = \<lparr>phase = encoding, progress = 50, currentCycle = None, totalCycles = None\<rparr>"
  have res: "fst loop"
    using ends recordingLoop_resolves [of settings d "startTime env"
        "AnimationFrame (firstCheck env) # events env" started head]
    by (simp add: recording_ends_def loop_def d_def)
  have "chunks (fst (snd loop)) = chunks started"
    unfolding loop_def using no_data by (intro recordingLoop_no_data) auto
  then have "chunks (fst (snd loop)) = []" by (simp add: started_def)
  then have none: "fst (stopRecording env (fst (snd loop))) = None"
    using no_flush by (rule stopRecording_empty)
  have run: "outcome (export env this settings scheduler) = Rejected NoAudioRecorded
      \<and> reported (export env this settings scheduler) = snd (snd loop) @ [enc50]"
    using export_run [OF dest, of settings scheduler env] res none
    by (simp add: loop_def d_def started_def head_def enc50_def)
  obtain n where reps: "snd (snd loop)
      = head @ map (checkProgress settings d (startTime env))
                 (take n (frame_times (AnimationFrame (firstCheck env) # events env)))"
    unfolding loop_def using recordingLoop_reports by blast
  have f: "filter (\<lambda>p. phase p = encoding) (snd (snd loop)) = []"
    by (simp add: reps head_def filter_empty_conv)
  have c: "\<forall>p \<in> set (snd (snd loop)). phase p \<noteq> complete"
    by (auto simp: reps head_def)
  show ?thesis
    using run f c by (simp add: enc50_def)
qed

theorem export_empty_capture_witness:
  "outcome (export (ex_env [DataAvailable [], AnimationFrame 400, AnimationFrame 1200] [[]]
                      (\<lambda>b. Inr ex_silence))
              ex_this ex_settings ex_scheduler) = Rejected NoAudioRecorded
   \<and> last (reported (export (ex_env [DataAvailable [], AnimationFrame 400, AnimationFrame 1200]
                               [[]] (\<lambda>b. Inr ex_silence))
                       ex_this ex_settings ex_scheduler))
       = \<lparr>phase = encoding, progress = 50, currentCycle = None, totalCycles = None\<rparr>"
  using export_empty_capture [of ex_this
      "ex_env [DataAvailable [], AnimationFrame 400, AnimationFrame 1200] [[]] (\<lambda>b. Inr ex_silence)"
      ex_settings ex_scheduler]
  by (simp add: ex_defs recording_ends_def totalDuration_def cycleDuration_def effective_cps_def
      fl_values)

subsection \<open>Decoder failure\<close>

lemma stopRecording_Some:
  "fst (stopRecording env this) = Some buffer \<Longrightarrow>
   decodeAudioData env (concat (chunks (snd (stopRecording env this)))) = Inr buffer"
  by (auto simp: stopRecording_def blobToAudioBuffer_def Let_def split: if_splits sum.splits)

text \<open>
  C5 does not hold as stated.  A call whose captured data the decoder rejects and a call
  that captured nothing end with the same outcome: the rejection of \<^verbatim>\<open>decodeAudioData\<close>
  is caught in \<^verbatim>\<open>blobToAudioBuffer\<close> and becomes \<^verbatim>\<open>null\<close>.
\<close>

theorem export_decode_failure_counterexample:
  "outcome (export (ex_env [DataAvailable [1], AnimationFrame 1000] [[2]] (\<lambda>b. Inl EncodingError))
              ex_this ex_settings ex_scheduler)
     = outcome (export (ex_env [AnimationFrame 1000] [] (\<lambda>b. Inl EncodingError))
                  ex_this ex_settings ex_scheduler)
   \<and> chunks (manager (export (ex_env [DataAvailable [1], AnimationFrame 1000] [[2]]
                                (\<lambda>b. Inl EncodingError))
                        ex_this ex_settings ex_scheduler)) = [[1], [2]]
   \<and> chunks (manager (export (ex_env [AnimationFrame 1000] [] (\<lambda>b. Inl EncodingError))
                        ex_this ex_settings ex_scheduler)) = []"
  by (simp add: ex_defs export_defs fl_values)

text \<open>
  C5 (amended).  If the recording destination is set, the recording promise is resolved
  and the decoder rejects the concatenation of the captured chunks, then \<^verbatim>\<open>export\<close>
  rejects with the error \<^verbatim>\<open>No audio recorded\<close>, the error of an empty capture, after the
  encoding snapshot at 50 and without a \<^verbatim>\<open>complete\<close> snapshot.
\<close>

theorem export_decode_failure:
  assumes dest: "mediaStreamDest this \<noteq> None"
    and ends: "recording_ends env settings scheduler"
    and rejects: "isl (decodeAudioData env
                         (concat (chunks (manager (export env this settings scheduler)))))"
  shows "outcome (export env this settings scheduler) = Rejected NoAudioRecorded
     \<and> last (reported (export env this settings scheduler))
         = \<lparr>phase = encoding, progress = 50, currentCycle = None, totalCycles = None\<rparr>
     \<and> (\<forall>p \<in> set (reported (export env this settings scheduler)). phase p \<noteq> complete)"
proof -
  define d where "d = fl (totalDuration settings scheduler * 1000)"
  define started where "started = this\<lparr>chunks := [], recorder := Some state_recording\<rparr>"
  define head where
    "head = [\<lparr>phase = preparing, progress = 0, currentCycle = None, totalCycles = None\<rparr>,
             \<lparr>phase = recording, progress = 0, currentCycle = Some 0,
              totalCycles = Some (cycles settings)\<rparr>]"
  define loop where "loop = recordingLoop settings d (startTime env)
                     (AnimationFrame (firstCheck env) # events env) (started, head)"
  define enc50 where
    "enc50 = \<lparr>phase = encoding, progress = 50, currentCycle = None, totalCycles = None\<rparr>"
  have res: "fst loop"
    using ends recordingLoop_resolves [of settings d "startTime env"
        "AnimationFrame (firstCheck env) # events env" started head]
    by (simp add: recording_ends_def loop_def d_def)
  note run = export_run [OF dest, of settings scheduler env, folded d_def started_def head_def,
      folded loop_def enc50_def]
  have m: "manager (export env this settings scheduler) = snd (stopRecording env (fst (snd loop)))"
    using run res by simp
  have none: "fst (stopRecording env (fst (snd loop))) = None"
  proof (cases "fst (stopRecording env (fst (snd loop)))")
    case None then show ?thesis .
  next
    case (Some buffer)
    from stopRecording_Some [OF this] rejects show ?thesis by (simp add: m)
  qed
  have r: "outcome (export env this settings scheduler) = Rejected NoAudioRecorded
      \<and> reported (export env this settings scheduler) = snd (snd loop) @ [enc50]"
    using run res none by simp
  obtain n where reps: "snd (snd loop)
      = head @ map (checkProgress settings d (startTime env))
                 (take n (frame_times (AnimationFrame (firstCheck env) # events env)))"
    unfolding loop_def using recordingLoop_reports by blast
  have c: "\<forall>p \<in> set (snd (snd loop)). phase p \<noteq> complete"
    by (auto simp: reps head_def)
  show ?thesis
    using r c by (simp add: enc50_def)
qed

theorem export_decode_failure_witness:
  "outcome (export (ex_env [DataAvailable [1], AnimationFrame 400, AnimationFrame 1200] [[2]]
                      (\<lambda>b. Inl EncodingError))
              ex_this ex_settings ex_scheduler) = Rejected NoAudioRecorded"
proof -
  have "chunks (manager (export (ex_env [DataAvailable [1], AnimationFrame 400, AnimationFrame 1200]
                                   [[2]] (\<lambda>b. Inl EncodingError))
                           ex_this ex_settings ex_scheduler)) = [[1], [2]]"
    by (simp add: ex_defs export_defs fl_values)
  then show ?thesis
    using export_decode_failure [of ex_this
      "ex_env [DataAvailable [1], AnimationFrame 400, AnimationFrame 1200] [[2]]
         (\<lambda>b. Inl EncodingError)" ex_settings ex_scheduler]
    by (simp add: ex_defs recording_ends_def totalDuration_def cycleDuration_def effective_cps_def
      fl_values)
qed

subsection \<open>Progress reports\<close>










end
